theory Spec2Isabelle
  imports Complex_Main "HOL-Library.Monad_Syntax"
begin

section \<open>Python numerics used by the AxiDraw motion core\<close>

text \<open>
  The driver computes with Python floats and integers. Python integers are modelled as
  \<^typ>\<open>int\<close>, the values of floats as \<^typ>\<open>real\<close>. The rounding of a float
  operation to double precision is modelled where its result is rounded to a whole number
  of motor steps (the step mapping and the scaling loop of \<open>plot_seg_with_v\<close>), and
  the rounding to single precision wherever a value is kept in an \<open>array('f')\<close>
  (\<open>traj_dists\<close> and \<open>traj_vels\<close> of the planner, \<open>dist_array\<close> of the
  executor); see the section on rounding below. The other float operations are
  computed exactly. An operation that raises in Python (\<open>ZeroDivisionError\<close> of
  \<open>/\<close>, \<open>ValueError\<close> of \<open>math.sqrt\<close> on a negative argument) returns
  \<open>None\<close>, and the exception propagates through \<open>do\<close> blocks as it does
  through the callers in the source.
\<close>

definition py_div :: "real \<Rightarrow> real \<Rightarrow> real option" where
  "py_div x y = (if y = 0 then None else Some (x / y))"

definition py_sqrt :: "real \<Rightarrow> real option" where
  "py_sqrt x = (if x < 0 then None else Some (sqrt x))"

text \<open>Python 3 \<open>round(x)\<close> on a float: to the nearest integer, ties to the even one.\<close>

definition py_round :: "real \<Rightarrow> int" where
  "py_round x =
     (let f = \<lfloor>x\<rfloor>; d = x - of_int f
      in if d < 1 / 2 then f
         else if 1 / 2 < d then f + 1
         else if even f then f else f + 1)"

text \<open>\<open>int(math.floor(x))\<close>.\<close>

definition py_floor :: "real \<Rightarrow> int" where
  "py_floor x = \<lfloor>x\<rfloor>"

section \<open>Rounding to double and to single precision\<close>

text \<open>
  The binary exponent of a positive real: \<open>ilog2 x = e\<close> with
  \<open>2\<^sup>e \<le> x < 2\<^sup>e\<^sup>+\<^sup>1\<close> (and \<open>0\<close> for \<open>x \<le> 0\<close>).
\<close>

function ilog2 :: "real \<Rightarrow> int" where
  "ilog2 x = (if x \<le> 0 then 0
              else if 2 \<le> x then ilog2 (x / 2) + 1
              else if x < 1 then ilog2 (x * 2) - 1
              else 0)"
  by pat_completeness auto

termination
proof (relation "measure (\<lambda>x. nat \<lceil>x\<rceil> + 2 * nat \<lceil>1 / x\<rceil>)")
  show "wf (measure (\<lambda>x. nat \<lceil>x\<rceil> + 2 * nat \<lceil>1 / x\<rceil>))" by simp
next
  fix x :: real
  assume "\<not> x \<le> 0" and x2: "2 \<le> x"
  have a: "\<lceil>x / 2\<rceil> < \<lceil>x\<rceil>"
  proof -
    have "x / 2 \<le> x - 1" using x2 by simp
    then have "\<lceil>x / 2\<rceil> \<le> \<lceil>x - 1\<rceil>" by (rule ceiling_mono)
    also have "\<dots> = \<lceil>x\<rceil> - 1" by simp
    finally show ?thesis by simp
  qed
  have b: "\<lceil>1 / (x / 2)\<rceil> = 1" using x2 by (simp add: ceiling_eq_iff)
  have c: "\<lceil>1 / x\<rceil> = 1" using x2 by (simp add: ceiling_eq_iff field_simps)
  have "0 < \<lceil>x\<rceil>" using x2 by (simp add: less_ceiling_iff)
  with a b c show "(x / 2, x) \<in> measure (\<lambda>x. nat \<lceil>x\<rceil> + 2 * nat \<lceil>1 / x\<rceil>)"
    by simp
next
  fix x :: real
  assume x0: "\<not> x \<le> 0" and "\<not> 2 \<le> x" and x1: "x < 1"
  define y where "y = 1 / x"
  have y1: "1 < y" using x0 x1 by (simp add: y_def)
  have a: "\<lceil>y / 2\<rceil> < \<lceil>y\<rceil>"
  proof (cases "y \<le> 2")
    case True
    then have "\<lceil>y / 2\<rceil> = 1" using y1 by (simp add: ceiling_eq_iff)
    moreover have "1 < \<lceil>y\<rceil>" using y1 by (simp add: less_ceiling_iff)
    ultimately show ?thesis by simp
  next
    case False
    then have "y / 2 \<le> y - 1" by simp
    then have "\<lceil>y / 2\<rceil> \<le> \<lceil>y - 1\<rceil>" by (rule ceiling_mono)
    also have "\<dots> = \<lceil>y\<rceil> - 1" by simp
    finally show ?thesis by simp
  qed
  have e: "1 / (x * 2) = y / 2" by (simp add: y_def)
  have b: "\<lceil>x\<rceil> = 1" using x0 x1 by (simp add: ceiling_eq_iff)
  have c: "\<lceil>x * 2\<rceil> \<le> 2" using x1 by (simp add: ceiling_le_iff)
  have d: "0 < \<lceil>y / 2\<rceil>" using y1 by (simp add: less_ceiling_iff)
  have A: "nat \<lceil>x * 2\<rceil> \<le> 2" using c by linarith
  have B: "nat \<lceil>y / 2\<rceil> < nat \<lceil>y\<rceil>" using a d by linarith
  have b': "nat \<lceil>x\<rceil> = 1" using b by simp
  have goal: "nat \<lceil>x * 2\<rceil> + 2 * nat \<lceil>y / 2\<rceil> < nat \<lceil>x\<rceil> + 2 * nat \<lceil>y\<rceil>"
    using A B b' by linarith
  show "(x * 2, x) \<in> measure (\<lambda>x. nat \<lceil>x\<rceil> + 2 * nat \<lceil>1 / x\<rceil>)"
    unfolding in_measure e y_def [symmetric] by (rule goal)
qed

declare ilog2.simps [simp del]

text \<open>
  Rounding to the nearest binary floating-point number of precision \<open>p\<close> bits and
  least exponent \<open>emin\<close>, ties to the even significand, as the IEEE 754 arithmetic of
  the hardware does: the spacing of the format at \<open>x\<close> is
  \<open>2\<^sup>e\<^sup>-\<^sup>p\<^sup>+\<^sup>1\<close>, with \<open>e\<close> the exponent of \<open>x\<close> and at least \<open>emin\<close> (gradual
  underflow).
\<close>

definition round_fp :: "nat \<Rightarrow> int \<Rightarrow> real \<Rightarrow> real" where
  "round_fp p emin x =
     (let e = max (ilog2 \<bar>x\<bar>) emin;
          ulp = 2 powi (e - int p + 1)
      in of_int (py_round (x / ulp)) * ulp)"

text \<open>
  \<open>fl64\<close> rounds the exact result of a float operation to a Python float (binary64),
  \<open>f32\<close> rounds a Python float to the single (binary32) that an \<open>array('f')\<close>
  keeps. A result beyond the largest finite number is an infinity in Python; the model
  does not follow such a run (\<open>None\<close>). Where the result goes on to \<open>round\<close>, as for
  the step counts and the scaled targets, Python raises \<open>OverflowError\<close> (on an
  infinity) or \<open>ValueError\<close> (on a NaN) there.
\<close>

definition fl64 :: "real \<Rightarrow> real option" where
  "fl64 x = (let y = round_fp 53 (- 1022) x in if \<bar>y\<bar> < 2 ^ 1024 then Some y else None)"

definition f32 :: "real \<Rightarrow> real option" where
  "f32 x = (let y = round_fp 24 (- 126) x in if \<bar>y\<bar> < 2 ^ 128 then Some y else None)"

section \<open>Velocity primitives (module \<open>plot_utils\<close>)\<close>

text \<open>
  Modelled from the spec: the helpers \<open>dotProductXY\<close>, \<open>distance\<close>,
  \<open>vFinal_Vi_A_Dx\<close> and \<open>vInitial_VF_A_Dx\<close> of the imported module
  \<open>plot_utils\<close> are not among the source files; section 4.2 of the specification
  gives them as \<open>dot(u, v) = u.x\<cdot>v.x + u.y\<cdot>v.y\<close>,
  \<open>dist(\<Delta>x, \<Delta>y) = \<surd>(\<Delta>x\<^sup>2 + \<Delta>y\<^sup>2)\<close>,
  \<open>v_final(v_i, a, \<Delta>x) = \<surd>(v_i\<^sup>2 + 2\<cdot>a\<cdot>\<Delta>x)\<close> and
  \<open>v_initial(v_f, -a, \<Delta>x) = \<surd>(v_f\<^sup>2 + 2\<cdot>a\<cdot>\<Delta>x)\<close>.
\<close>

definition dotProductXY :: "real \<times> real \<Rightarrow> real \<times> real \<Rightarrow> real" where
  "dotProductXY u v = fst u * fst v + snd u * snd v"

definition distance :: "real \<Rightarrow> real \<Rightarrow> real" where
  "distance dx dy = sqrt (dx * dx + dy * dy)"

definition vFinal_Vi_A_Dx :: "real \<Rightarrow> real \<Rightarrow> real \<Rightarrow> real" where
  "vFinal_Vi_A_Dx v_initial acceleration delta_x =
     sqrt (v_initial * v_initial + 2 * acceleration * delta_x)"

definition vInitial_VF_A_Dx :: "real \<Rightarrow> real \<Rightarrow> real \<Rightarrow> real" where
  "vInitial_VF_A_Dx v_final acceleration delta_x =
     sqrt (v_final * v_final - 2 * acceleration * delta_x)"

section \<open>CoreXY step mapping (\<open>plot_seg_with_v\<close>, step mapping block)\<close>

text \<open>
  \<^verbatim>\<open>
  motor_dist1 = delta_x_inches + delta_y_inches
  motor_dist2 = delta_x_inches - delta_y_inches
  motor_steps1 = int(round(self.step_scale * motor_dist1))
  motor_steps2 = int(round(self.step_scale * motor_dist2))
  \<close>
  The sum, the difference and the two products are rounded to double precision before
  \<open>round\<close> takes the nearest integer.
\<close>

definition motor_steps :: "real \<Rightarrow> real \<Rightarrow> real \<Rightarrow> (int \<times> int) option" where
  "motor_steps step_scale delta_x_inches delta_y_inches = do {
     motor_dist1 \<leftarrow> fl64 (delta_x_inches + delta_y_inches);
     motor_dist2 \<leftarrow> fl64 (delta_x_inches - delta_y_inches);
     steps1 \<leftarrow> fl64 (step_scale * motor_dist1);
     steps2 \<leftarrow> fl64 (step_scale * motor_dist2);
     Some (py_round steps1, py_round steps2) }"

text \<open>
  The distance actually moved, recomputed from the rounded steps:
  \<^verbatim>\<open>
  motor_dist1_rounded = float(motor_steps1) / (2.0 * self.step_scale)
  motor_dist2_rounded = float(motor_steps2) / (2.0 * self.step_scale)
  delta_x_inches_rounded = (motor_dist1_rounded + motor_dist2_rounded)
  delta_y_inches_rounded = (motor_dist1_rounded - motor_dist2_rounded)
  \<close>
  The step counts are whole-numbered floats before \<open>int\<close>, so \<open>float\<close> returns them
  unchanged.
\<close>

definition rounded_delta :: "real \<Rightarrow> int \<times> int \<Rightarrow> (real \<times> real) option" where
  "rounded_delta step_scale ms = do {
     denominator \<leftarrow> fl64 (2 * step_scale);
     q1 \<leftarrow> py_div (of_int (fst ms)) denominator;
     motor_dist1_rounded \<leftarrow> fl64 q1;
     q2 \<leftarrow> py_div (of_int (snd ms)) denominator;
     motor_dist2_rounded \<leftarrow> fl64 q2;
     delta_x_inches_rounded \<leftarrow> fl64 (motor_dist1_rounded + motor_dist2_rounded);
     delta_y_inches_rounded \<leftarrow> fl64 (motor_dist1_rounded - motor_dist2_rounded);
     Some (delta_x_inches_rounded, delta_y_inches_rounded) }"

section \<open>Trajectory planner: the cornering cap\<close>

text \<open>
  The junction speed limit of \<open>plan_trajectory\<close> as a function of the
  \<open>cosine_factor\<close>:
  \<^verbatim>\<open>
  root_factor = math.sqrt((1 - cosine_factor) / 2)
  denominator = 1 - root_factor
  if denominator > 0.0001:
      rfactor = (delta * root_factor) / denominator
  else:
      rfactor = 100000
  vjunction_max = math.sqrt(accel_rate * rfactor)
  \<close>
\<close>

definition junction_rfactor :: "real \<Rightarrow> real \<Rightarrow> real option" where
  "junction_rfactor delta cosine_factor = do {
     root_factor \<leftarrow> py_sqrt ((1 - cosine_factor) / 2);
     let denominator = 1 - root_factor;
     if denominator > 0.0001 then py_div (delta * root_factor) denominator
     else Some 100000 }"

definition vjunction_max :: "real \<Rightarrow> real \<Rightarrow> real \<Rightarrow> real option" where
  "vjunction_max accel_rate delta cosine_factor = do {
     rfactor \<leftarrow> junction_rfactor delta cosine_factor;
     py_sqrt (accel_rate * rfactor) }"

text \<open>\<open>cosine_factor = - plot_utils.dotProductXY(traj_vectors[i - 1], traj_vectors[i])\<close>.\<close>

definition cosine_factor :: "real \<times> real \<Rightarrow> real \<times> real \<Rightarrow> real" where
  "cosine_factor u_prev u_cur = - dotProductXY u_prev u_cur"

section \<open>Plot state\<close>

text \<open>
  The options, the configuration parameters and the attributes of the driver object that
  the planner and the segment executor only read.
\<close>

record config =
  opt_preview :: bool                 \<comment> \<open>\<open>options.preview\<close>\<close>
  opt_mode :: string                  \<comment> \<open>\<open>options.mode\<close>\<close>
  opt_const_speed :: bool             \<comment> \<open>\<open>options.const_speed\<close>\<close>
  opt_accel :: real                   \<comment> \<open>\<open>options.accel\<close>\<close>
  opt_resolution :: int               \<comment> \<open>\<open>options.resolution\<close>\<close>
  par_accel_rate :: real              \<comment> \<open>\<open>params.accel_rate\<close>\<close>
  par_accel_rate_pu :: real           \<comment> \<open>\<open>params.accel_rate_pu\<close>\<close>
  par_time_slice :: real              \<comment> \<open>\<open>params.time_slice\<close>\<close>
  par_max_step_rate :: real           \<comment> \<open>\<open>params.max_step_rate\<close>\<close>
  par_bounds_tolerance :: real        \<comment> \<open>\<open>params.bounds_tolerance\<close>\<close>
  par_cornering :: real               \<comment> \<open>\<open>params.cornering\<close>\<close>
  par_max_step_dist_hr :: real        \<comment> \<open>\<open>params.max_step_dist_hr\<close>\<close>
  par_max_step_dist_lr :: real        \<comment> \<open>\<open>params.max_step_dist_lr\<close>\<close>
  self_step_scale :: real              \<comment> \<open>\<open>self.step_scale\<close>\<close>
  self_speed_pendown :: real           \<comment> \<open>\<open>self.speed_pendown\<close>\<close>
  self_speed_penup :: real             \<comment> \<open>\<open>self.speed_penup\<close>\<close>
  x_bounds_min :: real
  x_bounds_max :: real
  y_bounds_min :: real
  y_bounds_max :: real
  self_secondary :: bool               \<comment> \<open>\<open>self.Secondary\<close>\<close>

text \<open>
  Commands sent to the motion controller, in the order of emission.
  \<open>XYMove a b t\<close> is \<open>ebb_motion.doXYMove(port, a, b, t)\<close>.
\<close>

datatype command = XYMove int int int | PenRaise | PenLower | ServoSetup

text \<open>
  The mutable attributes of the driver object, of \<open>plot_status\<close> and of
  \<open>pen.status\<close> that the modelled functions touch. \<open>f_curr\<close> holds
  \<open>(f_curr_x, f_curr_y)\<close>, \<open>None\<close> while \<open>f_curr_x is None\<close>;
  \<open>port_open\<close> is \<open>plot_status.port is not None\<close>; \<open>commands\<close> is the
  stream written to the controller so far.
\<close>

record state =
  stopped :: int
  resume_mode :: bool
  copies_to_plot :: int
  delay_between_copies :: bool
  port_open :: bool
  connected :: bool
  node_count :: int
  node_target :: int
  svg_node_count :: int
  f_curr :: "(real \<times> real) option"
  pt_first :: "real \<times> real"
  svg_paused_x :: real
  svg_paused_y :: real
  svg_last_known_pos_x :: real
  svg_last_known_pos_y :: real
  pen_up :: bool
  virtual_pen_up :: bool
  progress_enable :: bool
  progress_total :: int
  warnings :: "string set"
  up_travel :: real
  down_travel :: real
  pt_estimate :: int
  commands :: "command list"

section \<open>Pen state (module \<open>pen_handling\<close>)\<close>

text \<open>
  Modelled from the spec: \<open>pen_raise\<close>, \<open>pen_lower\<close> and \<open>servo_setup\<close> of
  the module \<open>pen_handling\<close> are not among the source files. Section 4.3 of the
  specification: while \<open>resume_mode\<close> is active, raise and lower update only
  \<open>virtual_pen_up\<close>; otherwise they command the servo and track the physical state.
  The returned durations only feed the preview charts and are left out.
\<close>

definition pen_raise :: "state \<Rightarrow> state" where
  "pen_raise s =
     (if resume_mode s then s\<lparr>virtual_pen_up := True\<rparr>
      else s\<lparr>virtual_pen_up := True, pen_up := True, commands := commands s @ [PenRaise]\<rparr>)"

definition pen_lower :: "state \<Rightarrow> state" where
  "pen_lower s =
     (if resume_mode s then s\<lparr>virtual_pen_up := False\<rparr>
      else s\<lparr>virtual_pen_up := False, pen_up := False, commands := commands s @ [PenLower]\<rparr>)"

definition servo_setup :: "state \<Rightarrow> state" where
  "servo_setup s = s\<lparr>commands := commands s @ [ServoSetup]\<rparr>"

section \<open>Pause and resume controller (\<open>pause_res_check\<close>)\<close>

text \<open>
  What one consultation reads from outside: whether the software pause event is set
  (\<open>receive_pause_request()\<close>) and the text that \<open>QueryPRGButton\<close> returned.
\<close>

record pause_input =
  pause_request :: bool
  str_button :: string

text \<open>
  \<open>int(str_button[0])\<close>: \<open>None\<close> stands for the \<open>IndexError\<close> of an empty reply
  and for the \<open>ValueError\<close> of a first character that is not a decimal digit; the
  source handles both in one \<open>except\<close> clause.
\<close>

definition first_digit :: "string \<Rightarrow> int option" where
  "first_digit r =
     (case r of
        [] \<Rightarrow> None
      | c # _ \<Rightarrow>
          (let n = (of_char c :: nat)
           in if 48 \<le> n \<and> n \<le> 57 then Some (int n - 48) else None))"

text \<open>The keyboard-interrupt block.\<close>

definition note_pause_request :: "pause_input \<Rightarrow> state \<Rightarrow> state" where
  "note_pause_request inp s =
     (if pause_request inp
      then (if delay_between_copies s then s\<lparr>stopped := - 2\<rparr> else s\<lparr>stopped := - 103\<rparr>)
      else s)"

text \<open>
  The button block: returns \<open>pause_button_pressed\<close> and the state. In preview mode
  \<open>str_button\<close> is the integer \<open>0\<close>, and subscripting it raises a \<open>TypeError\<close>
  that nothing catches (\<open>None\<close>).
\<close>

definition read_button :: "config \<Rightarrow> pause_input \<Rightarrow> state \<Rightarrow> (int \<times> state) option" where
  "read_button cfg inp s =
     (if stopped s = 0 \<and> port_open s then
        (if opt_preview cfg then None
         else (case first_digit (str_button inp) of
                 Some d \<Rightarrow> Some (d, s)
               | None \<Rightarrow> Some (0, s\<lparr>connected := False, stopped := - 104\<rparr>)))
      else Some (0, s))"

definition note_button :: "int \<Rightarrow> state \<Rightarrow> state" where
  "note_button pause_button_pressed s =
     (if pause_button_pressed = 1
      then (if delay_between_copies s then s\<lparr>stopped := - 2\<rparr> else s\<lparr>stopped := - 102\<rparr>)
      else s)"

text \<open>A pause during resume mode skips to the end of resume mode.\<close>

definition skip_to_target :: "config \<Rightarrow> state \<Rightarrow> state" where
  "skip_to_target cfg s =
     (if stopped s \<noteq> 0 \<and> opt_mode cfg = ''res_plot'' \<and> node_count s < node_target s
      then s\<lparr>node_count := node_target s\<rparr> else s)"

text \<open>
  The \<open>stopped < 0\<close> block: record the pause position, raise the pen, make the code
  positive. Subtracting from \<open>f_curr_x\<close> while it is \<open>None\<close> raises (\<open>None\<close>).
\<close>

definition stop_plot :: "state \<Rightarrow> state option" where
  "stop_plot s =
     (case f_curr s of
        None \<Rightarrow> None
      | Some (x, y) \<Rightarrow>
          (let s1 = s\<lparr>svg_node_count := node_count s,
                       svg_paused_x := x - fst (pt_first s),
                       svg_paused_y := y - snd (pt_first s)\<rparr>;
               s2 = pen_raise s1
           in Some (s2\<lparr>stopped := - stopped s2\<rparr>)))"

text \<open>The tail of the function: count the node, update the progress total, leave resume mode.\<close>

definition count_node :: "config \<Rightarrow> state \<Rightarrow> state" where
  "count_node cfg s =
     (let s1 = s\<lparr>node_count := node_count s + 1\<rparr>;
          s2 = (if progress_enable s1 \<and> opt_preview cfg \<and> node_count s1 > progress_total s1
                then s1\<lparr>progress_total := node_count s1\<rparr> else s1)
      in if resume_mode s2 \<and> node_count s2 \<ge> node_target s2 then
           (let s3 = servo_setup (s2\<lparr>resume_mode := False\<rparr>)
            in if \<not> virtual_pen_up s3 then pen_lower s3 else s3)
         else s2)"

definition pause_res_check :: "config \<Rightarrow> pause_input \<Rightarrow> state \<Rightarrow> state option" where
  "pause_res_check cfg inp s =
     (if stopped s > 0 then Some s
      else do {
        (pause_button_pressed, s1) \<leftarrow> read_button cfg inp (note_pause_request inp s);
        let s2 = skip_to_target cfg (note_button pause_button_pressed s1);
        if stopped s2 < 0 then stop_plot s2
        else Some (count_node cfg s2) })"

section \<open>Segment executor: the velocity profile of one segment\<close>

text \<open>
  The local variables that the four profile cases of \<open>plot_seg_with_v\<close> update:
  \<open>duration_array\<close> is an \<open>array('I')\<close> of cumulative times in milliseconds,
  \<open>dist_array\<close> an \<open>array('f')\<close> of cumulative distances in inches. The list
  \<open>dist_array\<close> of the model holds the floats that are appended; the rounding to
  single precision is applied where the entries are read back, in the scaling loop.
\<close>

record profile =
  velocity :: real
  time_elapsed :: real
  position :: real
  duration_array :: "int list"
  dist_array :: "real list"

text \<open>
  \<open>duration_array.append(int(round(time_elapsed * 1000.0)))\<close> followed by
  \<open>dist_array.append(position)\<close>. Appending a value outside the unsigned 32-bit range
  to an \<open>array('I')\<close> raises \<open>OverflowError\<close> (\<open>None\<close>).
\<close>

definition append_interval :: "profile \<Rightarrow> profile option" where
  "append_interval p =
     (let d = py_round (time_elapsed p * 1000)
      in if 0 \<le> d \<and> d < 2 ^ 32
         then Some (p\<lparr>duration_array := duration_array p @ [d],
                      dist_array := dist_array p @ [position p]\<rparr>)
         else None)"

text \<open>
  The body shared by the acceleration, deceleration and linear loops,
  \<open>for index in range(0, intervals)\<close>: step the velocity by \<open>dv\<close>, advance the time
  by \<open>dt\<close>, integrate the position, append.
\<close>

fun ramp :: "nat \<Rightarrow> real \<Rightarrow> real \<Rightarrow> profile \<Rightarrow> profile option" where
  "ramp 0 dv dt p = Some p"
| "ramp (Suc n) dv dt p = do {
     let v = velocity p + dv;
     p' \<leftarrow> append_interval (p\<lparr>velocity := v,
                                time_elapsed := time_elapsed p + dt,
                                position := position p + v * dt\<rparr>);
     ramp n dv dt p' }"

text \<open>
  \<open>if intervals > 0:\<close> with \<open>time_per_interval = t_ramp / intervals\<close> and
  \<open>velocity_step_size = dv / (intervals + 1.0)\<close>; the deceleration phase subtracts the
  step.
\<close>

definition ramp_up :: "int \<Rightarrow> real \<Rightarrow> real \<Rightarrow> profile \<Rightarrow> profile option" where
  "ramp_up intervals t_ramp dv p =
     (if intervals > 0 then
        (let time_per_interval = t_ramp / of_int intervals;
             velocity_step_size = dv / (of_int intervals + 1)
         in ramp (nat intervals) velocity_step_size time_per_interval p)
      else Some p)"

definition ramp_down :: "int \<Rightarrow> real \<Rightarrow> real \<Rightarrow> profile \<Rightarrow> profile option" where
  "ramp_down intervals t_ramp dv p =
     (if intervals > 0 then
        (let time_per_interval = t_ramp / of_int intervals;
             velocity_step_size = dv / (of_int intervals + 1)
         in ramp (nat intervals) (- velocity_step_size) time_per_interval p)
      else Some p)"

text \<open>
  The cruise loop \<open>while ct > cruise_interval\<close>. With \<open>cruise_interval \<le> 0\<close> the
  condition, once true, stays true: the loop never returns normally (\<open>None\<close>).
\<close>

function cruise :: "real \<Rightarrow> real \<Rightarrow> profile \<Rightarrow> (real \<times> profile) option" where
  "cruise ct cruise_interval p =
     (if ct > cruise_interval then
        (if cruise_interval \<le> 0 then None
         else do {
           p' \<leftarrow> append_interval (p\<lparr>time_elapsed := time_elapsed p + cruise_interval,
                                      position := position p + velocity p * cruise_interval\<rparr>);
           cruise (ct - cruise_interval) cruise_interval p' })
      else Some (ct, p))"
  by pat_completeness auto
termination
proof (relation "measure (\<lambda>(ct, ci, p). nat \<lfloor>ct / ci\<rfloor>)")
  show "wf (measure (\<lambda>(ct, ci, p). nat \<lfloor>ct / ci\<rfloor>))" by simp
next
  fix ct ci :: real and p x2 :: profile
  assume gt: "ci < ct" and pos: "\<not> ci \<le> 0"
  then have "(ct - ci) / ci = ct / ci - 1"
    by (simp add: diff_divide_distrib)
  moreover have "1 \<le> \<lfloor>ct / ci\<rfloor>"
    using gt pos by (simp add: le_floor_iff)
  ultimately show "((ct - ci, ci, x2), (ct, ci, p)) \<in> measure (\<lambda>(ct, ci, p). nat \<lfloor>ct / ci\<rfloor>)"
    by simp
qed

declare cruise.simps [simp del]

text \<open>Case 1, the trapezoid: accelerate to the speed limit, cruise, decelerate.\<close>

definition trapezoid ::
  "real \<Rightarrow> real \<Rightarrow> real \<Rightarrow> real \<Rightarrow> real \<Rightarrow> real \<Rightarrow> real \<Rightarrow> real \<Rightarrow> real \<Rightarrow> profile \<Rightarrow> profile option"
where
  "trapezoid slice speed_limit vi vf t_accel_max t_decel_max accel_dist_max decel_dist_max len p = do {
     let speed_max = speed_limit;
     qa \<leftarrow> py_div t_accel_max slice;
     p1 \<leftarrow> ramp_up (py_floor qa) t_accel_max (speed_max - vi) p;
     let coasting_distance = len - (accel_dist_max + decel_dist_max);
     p2 \<leftarrow> (if coasting_distance > slice * speed_max then do {
              let pv = p1\<lparr>velocity := speed_max\<rparr>;
              cruising_time \<leftarrow> py_div coasting_distance (velocity pv);
              (ct, pc) \<leftarrow> cruise cruising_time (20 * slice) pv;
              append_interval (pc\<lparr>time_elapsed := time_elapsed pc + ct,
                                 position := position pc + velocity pc * ct\<rparr>) }
            else Some p1);
     qd \<leftarrow> py_div t_decel_max slice;
     ramp_down (py_floor qd) t_decel_max (speed_max - vf) p2 }"

text \<open>
  Case 3, the linear ramp, entered from the triangle case when it has too few
  intervals. Returns the profile, the flag \<open>constant_vel_mode\<close> and the updated
  \<open>vi_inch_per_s\<close>.
\<close>

definition linear_ramp ::
  "real \<Rightarrow> real \<Rightarrow> real \<Rightarrow> real \<Rightarrow> real \<Rightarrow> real \<Rightarrow> bool \<Rightarrow> profile \<Rightarrow> (profile \<times> bool \<times> real) option"
where
  "linear_ramp slice rate vi vf vmax len constant_vel_mode p = do {
     let vi = (vmax + vi) / 2;
     let p = p\<lparr>velocity := vi\<rparr>;
     local_accel \<leftarrow> py_div (vf * vf - vi * vi) (2 * len);
     let local_accel = (if local_accel > rate then rate
                        else if local_accel < - rate then - rate else local_accel);
     if local_accel = 0 then Some (p, True, vi)
     else do {
       t_segment \<leftarrow> py_div (vf - vi) local_accel;
       q \<leftarrow> py_div t_segment slice;
       let intervals = py_floor q;
       if intervals > 1 then do {
         let time_per_interval = t_segment / of_int intervals;
         let velocity_step_size = (vf - vi) / (of_int intervals + 1);
         p1 \<leftarrow> ramp (nat intervals) velocity_step_size time_per_interval p;
         Some (p1, constant_vel_mode, vi) }
       else Some (p, True, vmax) } }"

text \<open>Case 2, the triangle, falling back to case 3.\<close>

definition triangle ::
  "real \<Rightarrow> real \<Rightarrow> real \<Rightarrow> real \<Rightarrow> real \<Rightarrow> real \<Rightarrow> real \<Rightarrow> bool \<Rightarrow> profile \<Rightarrow> (profile \<times> bool \<times> real) option"
where
  "triangle slice rate vi vf accel_dist_max decel_dist_max len constant_vel_mode p = do {
     accel_rate_local \<leftarrow>
       (if len \<ge> 0.9 * (accel_dist_max + decel_dist_max) then do {
          q \<leftarrow> py_div (accel_dist_max + decel_dist_max) len;
          Some (if accel_dist_max + decel_dist_max = 0 then rate else 0.9 * q * rate) }
        else Some rate);
     ta \<leftarrow> (if accel_rate_local > 0 then do {
              r \<leftarrow> py_sqrt (2 * vi * vi + 2 * vf * vf + 4 * accel_rate_local * len);
              py_div (r - 2 * vi) (2 * accel_rate_local) }
            else Some 0);
     let vmax = vi + accel_rate_local * ta;
     qa \<leftarrow> py_div ta slice;
     let intervals = py_floor qa;
     let ta = (if intervals = 0 then 0 else ta);
     td \<leftarrow> (if accel_rate_local > 0 then do {
              q \<leftarrow> py_div (vf - vi) accel_rate_local;
              Some (ta - q) }
            else Some 0);
     qd \<leftarrow> py_div td slice;
     let d_intervals = py_floor qd;
     if intervals + d_intervals > 4 then do {
       p1 \<leftarrow> ramp_up intervals ta (vmax - vi) p;
       p2 \<leftarrow> ramp_down d_intervals td (vmax - vf) p1;
       Some (p2, constant_vel_mode, vi) }
     else linear_ramp slice rate vi vf vmax len constant_vel_mode p }"

text \<open>
  Case 4, constant velocity: the velocity chosen for the single interval, then
  \<open>time_elapsed = segment_length_inches / velocity\<close>.
\<close>

definition chosen_velocity :: "config \<Rightarrow> bool \<Rightarrow> real \<Rightarrow> real \<Rightarrow> real" where
  "chosen_velocity cfg is_pen_up vi vf =
     (if opt_const_speed cfg \<and> \<not> is_pen_up then self_speed_pendown cfg
      else if vf > vi then vf
      else if vi > vf then vi
      else if vi > 0 then vi
      else self_speed_pendown cfg / 10)"

definition constant_velocity ::
  "config \<Rightarrow> bool \<Rightarrow> real \<Rightarrow> real \<Rightarrow> real \<Rightarrow> profile \<Rightarrow> profile option"
where
  "constant_velocity cfg is_pen_up vi vf len p = do {
     let v = chosen_velocity cfg is_pen_up vi vf;
     t \<leftarrow> py_div len v;
     let d = py_round (t * 1000);
     if 0 \<le> d \<and> d < 2 ^ 32
     then Some (p\<lparr>velocity := v, time_elapsed := t, position := position p + len,
                  duration_array := duration_array p @ [d],
                  dist_array := dist_array p @ [len]\<rparr>)
     else None }"

text \<open>
  The case selection of \<open>plot_seg_with_v\<close> for a segment of length \<open>len\<close> with the
  requested end-point velocities \<open>v_i\<close> and \<open>v_f\<close>, up to case 4: the speed and
  acceleration limits, then cases 1 to 3. Returns the profile so far and the variables
  \<open>constant_vel_mode\<close>, \<open>vi_inch_per_s\<close> and \<open>vf_inch_per_s\<close> as case 4 finds them.
\<close>

definition ramp_cases ::
  "config \<Rightarrow> bool \<Rightarrow> real \<Rightarrow> real \<Rightarrow> real \<Rightarrow> (profile \<times> bool \<times> real \<times> real) option"
where
  "ramp_cases cfg is_pen_up len v_i v_f = do {
     let constant_vel_mode = (opt_const_speed cfg \<and> \<not> is_pen_up);
     let speed_limit = (if is_pen_up then self_speed_penup cfg else self_speed_pendown cfg);
     let rate = (if is_pen_up then par_accel_rate_pu cfg * opt_accel cfg / 100
                 else par_accel_rate cfg * opt_accel cfg / 100);
     let vi = min v_i speed_limit;
     let vf = min v_f speed_limit;
     t_accel_max \<leftarrow> py_div (speed_limit - vi) rate;
     t_decel_max \<leftarrow> py_div (speed_limit - vf) rate;
     let accel_dist_max = vi * t_accel_max + 0.5 * rate * t_accel_max * t_accel_max;
     let decel_dist_max = vf * t_decel_max + 0.5 * rate * t_decel_max * t_decel_max;
     max_vel_time_estimate \<leftarrow> py_div len speed_limit;
     let slice = par_time_slice cfg;
     let p0 = \<lparr>velocity = vi, time_elapsed = 0, position = 0,
               duration_array = [], dist_array = []\<rparr>;
     if \<not> constant_vel_mode \<or> is_pen_up then
       (if len > accel_dist_max + decel_dist_max + slice * speed_limit
            \<and> max_vel_time_estimate > 4 * slice
        then do {
          p \<leftarrow> trapezoid slice speed_limit vi vf t_accel_max t_decel_max
                 accel_dist_max decel_dist_max len p0;
          Some (p, constant_vel_mode, vi, vf) }
        else do {
          (p, constant_vel_mode, vi) \<leftarrow>
            triangle slice rate vi vf accel_dist_max decel_dist_max len constant_vel_mode p0;
          Some (p, constant_vel_mode, vi, vf) })
     else Some (p0, constant_vel_mode, vi, vf) }"

text \<open>The finished time and distance arrays: cases 1 to 3, then case 4 if it is selected.\<close>

definition motion_profile :: "config \<Rightarrow> bool \<Rightarrow> real \<Rightarrow> real \<Rightarrow> real \<Rightarrow> profile option" where
  "motion_profile cfg is_pen_up len v_i v_f = do {
     (p, constant_vel_mode, vi, vf) \<leftarrow> ramp_cases cfg is_pen_up len v_i v_f;
     if constant_vel_mode then constant_velocity cfg is_pen_up vi vf len p else Some p }"

section \<open>Segment executor: scaling and emission\<close>

text \<open>
  The scaling loop: \<open>fractional_distance = dist_array[index] / position\<close>, then
  \<open>int(round(fractional_distance * motor_steps_k))\<close> appended to the signed 32-bit arrays
  \<open>dest_array1\<close> and \<open>dest_array2\<close> (\<open>OverflowError\<close> outside their range).
  \<open>dist_array\<close> is an \<open>array('f')\<close>: the entry read back is the single nearest to
  the distance that was appended, while \<open>position\<close> is the float itself. The quotient
  and the two products are rounded to double precision.
\<close>

fun scale_dests :: "real \<Rightarrow> int \<Rightarrow> int \<Rightarrow> real list \<Rightarrow> (int \<times> int) list option" where
  "scale_dests pos m1 m2 [] = Some []"
| "scale_dests pos m1 m2 (d # ds) = do {
     stored \<leftarrow> f32 d;
     q \<leftarrow> py_div stored pos;
     fractional_distance \<leftarrow> fl64 q;
     x1 \<leftarrow> fl64 (fractional_distance * of_int m1);
     x2 \<leftarrow> fl64 (fractional_distance * of_int m2);
     let d1 = py_round x1;
     let d2 = py_round x2;
     if - (2 ^ 31) \<le> d1 \<and> d1 < 2 ^ 31 \<and> - (2 ^ 31) \<le> d2 \<and> d2 < 2 ^ 31
     then do { rest \<leftarrow> scale_dests pos m1 m2 ds; Some ((d1, d2) # rest) }
     else None }"

text \<open>
  The overspeed loop
  \<^verbatim>\<open>
  while (abs(float(move_steps1) / float(move_time)) >= max_step_rate) or
        (abs(float(move_steps2) / float(move_time)) >= max_step_rate):
      move_time += 1
  \<close>
  \<open>None\<close> is the \<open>ZeroDivisionError\<close> at \<open>move_time = 0\<close> and the loop that never
  ends: with \<open>max_step_rate \<le> 0\<close> the condition holds for every \<open>move_time\<close>.
\<close>

function extend_time :: "real \<Rightarrow> int \<Rightarrow> int \<Rightarrow> int \<Rightarrow> int option" where
  "extend_time msr move_steps1 move_steps2 move_time =
     (if move_time = 0 then None
      else if \<bar>of_int move_steps1 / of_int move_time\<bar> \<ge> msr
            \<or> \<bar>of_int move_steps2 / of_int move_time\<bar> \<ge> msr
      then (if msr \<le> 0 then None
            else extend_time msr move_steps1 move_steps2 (move_time + 1))
      else Some move_time)"
  by pat_completeness auto

termination
proof (relation "measure (\<lambda>(msr, m1, m2, t).
     if t < 0 then nat (- t) + nat (\<lfloor>max \<bar>of_int m1\<bar> \<bar>of_int m2\<bar> / msr\<rfloor> + 1) + 1
     else nat (\<lfloor>max \<bar>of_int m1 :: real\<bar> \<bar>of_int m2\<bar> / msr\<rfloor> + 1 - t))")
  show "wf (measure (\<lambda>(msr, m1, m2, t).
     if t < 0 then nat (- t) + nat (\<lfloor>max \<bar>of_int m1\<bar> \<bar>of_int m2\<bar> / msr\<rfloor> + 1) + 1
     else nat (\<lfloor>max \<bar>of_int m1 :: real\<bar> \<bar>of_int m2\<bar> / msr\<rfloor> + 1 - t)))"
    by simp
next
  fix msr :: real and m1 m2 t :: int
  assume t0: "t \<noteq> 0"
    and over: "msr \<le> \<bar>of_int m1 / of_int t\<bar> \<or> msr \<le> \<bar>of_int m2 / of_int t\<bar>"
    and pos: "\<not> msr \<le> 0"
  define M where "M = max \<bar>of_int m1 :: real\<bar> \<bar>of_int m2\<bar>"
  define F where "F = \<lfloor>max \<bar>of_int m1 :: real\<bar> \<bar>of_int m2\<bar> / msr\<rfloor>"
  show "((msr, m1, m2, t + 1), (msr, m1, m2, t)) \<in> measure (\<lambda>(msr, m1, m2, t).
     if t < 0 then nat (- t) + nat (\<lfloor>max \<bar>of_int m1\<bar> \<bar>of_int m2\<bar> / msr\<rfloor> + 1) + 1
     else nat (\<lfloor>max \<bar>of_int m1 :: real\<bar> \<bar>of_int m2\<bar> / msr\<rfloor> + 1 - t))"
  proof (cases "t < 0")
    case True
    have "0 \<le> M / msr" using pos unfolding M_def by simp
    then have "0 \<le> F" unfolding F_def M_def by simp
    with True show ?thesis unfolding F_def [symmetric] by auto
  next
    case False
    with t0 have tpos: "0 < t" by simp
    from over tpos have "msr * of_int t \<le> M"
      unfolding M_def by (auto simp: abs_divide field_simps)
    then have "of_int t \<le> M / msr" using pos by (simp add: field_simps)
    then have "t \<le> F" unfolding F_def M_def by (simp add: le_floor_iff)
    with tpos show ?thesis unfolding F_def by auto
  qed
qed

declare extend_time.simps [simp del]

text \<open>
  One pass of the emission loop up to the overspeed check: from the raw differences to
  the step counts and the duration that are applied. \<open>max(move_time, 1)\<close> forbids
  zero-time moves; an axis slower than \<open>0.002\<close> steps per millisecond is zeroed.
\<close>

definition interval_move :: "real \<Rightarrow> int \<Rightarrow> int \<Rightarrow> int \<Rightarrow> (int \<times> int \<times> int) option" where
  "interval_move msr raw_steps1 raw_steps2 raw_time =
     (let move_time = max raw_time 1;
          move_steps1 = (if \<bar>of_int raw_steps1 / of_int move_time\<bar> < (0.002 :: real)
                         then 0 else raw_steps1);
          move_steps2 = (if \<bar>of_int raw_steps2 / of_int move_time\<bar> < (0.002 :: real)
                         then 0 else raw_steps2)
      in map_option (\<lambda>t. (move_steps1, move_steps2, t))
           (extend_time msr move_steps1 move_steps2 move_time))"

text \<open>
  The rest of the pass: if a step is required and the plot is neither resuming nor
  stopped, send the move (or, in preview, add its time to the estimate) and update the
  current position. The preview's drawing of the path is left out.
\<close>

definition execute_move :: "config \<Rightarrow> int \<Rightarrow> int \<Rightarrow> int \<Rightarrow> state \<Rightarrow> state option" where
  "execute_move cfg move_steps1 move_steps2 move_time s =
     (if move_steps1 \<noteq> 0 \<or> move_steps2 \<noteq> 0 then do {
        motor_dist1_temp \<leftarrow> py_div (of_int move_steps1) (self_step_scale cfg * 2);
        motor_dist2_temp \<leftarrow> py_div (of_int move_steps2) (self_step_scale cfg * 2);
        let x_delta = motor_dist1_temp + motor_dist2_temp;
        let y_delta = motor_dist1_temp - motor_dist2_temp;
        if \<not> resume_mode s \<and> stopped s = 0 then
          (case f_curr s of
             None \<Rightarrow> None
           | Some (cx, cy) \<Rightarrow>
               (let f_new_x = cx + x_delta;
                    f_new_y = cy + y_delta;
                    s1 = (if opt_preview cfg
                          then s\<lparr>pt_estimate := pt_estimate s + move_time\<rparr>
                          else s\<lparr>commands := commands s
                                   @ [XYMove move_steps2 move_steps1 move_time]\<rparr>)
                in Some (s1\<lparr>f_curr := Some (f_new_x, f_new_y),
                            svg_last_known_pos_x := f_new_x - fst (pt_first s1),
                            svg_last_known_pos_y := f_new_y - snd (pt_first s1)\<rparr>)))
        else Some s }
      else Some s)"

text \<open>The loop variables \<open>prev_motor1\<close>, \<open>prev_motor2\<close> and \<open>prev_time\<close>.\<close>

record emit_acc =
  prev_motor1 :: int
  prev_motor2 :: int
  prev_time :: int

text \<open>
  The emission loop over the targets \<open>((dest_array1[i], dest_array2[i]),
  duration_array[i])\<close>.
\<close>

fun emit_moves ::
  "config \<Rightarrow> ((int \<times> int) \<times> int) list \<Rightarrow> emit_acc \<Rightarrow> state \<Rightarrow> (emit_acc \<times> state) option"
where
  "emit_moves cfg [] acc s = Some (acc, s)"
| "emit_moves cfg (((dest1, dest2), duration) # rest) acc s = do {
     (move_steps1, move_steps2, move_time) \<leftarrow>
       interval_move (par_max_step_rate cfg)
         (dest1 - prev_motor1 acc) (dest2 - prev_motor2 acc) (duration - prev_time acc);
     let acc' = \<lparr>prev_motor1 = prev_motor1 acc + move_steps1,
                 prev_motor2 = prev_motor2 acc + move_steps2,
                 prev_time = duration\<rparr>;
     s' \<leftarrow> execute_move cfg move_steps1 move_steps2 move_time s;
     emit_moves cfg rest acc' s' }"

section \<open>Segment executor: \<open>plot_seg_with_v\<close>\<close>

text \<open>
  Modelled from the spec: \<open>plot_utils.checkLimitsTol\<close> is not among the source files.
  Section 4.6 of the specification: clamp the destination to the travel range with a small
  tolerance; a clamp beyond the tolerance is reported (and records a \<open>bounds\<close> warning).
\<close>

definition checkLimitsTol :: "real \<Rightarrow> real \<Rightarrow> real \<Rightarrow> real \<Rightarrow> real \<times> bool" where
  "checkLimitsTol v lower_bound upper_bound tolerance =
     (if v > upper_bound then (upper_bound, v > upper_bound + tolerance)
      else if v < lower_bound then (lower_bound, v < lower_bound - tolerance)
      else (v, False))"

text \<open>
  Modelled from the spec: \<open>plot_status.stats.add_dist\<close> is not among the source files;
  section 3 of the specification lists accumulators for pen-up and pen-down distance.
\<close>

definition add_dist :: "real \<Rightarrow> state \<Rightarrow> state" where
  "add_dist len s =
     (if pen_up s then s\<lparr>up_travel := up_travel s + len\<rparr>
      else s\<lparr>down_travel := down_travel s + len\<rparr>)"

definition init_acc :: emit_acc where
  "init_acc = \<lparr>prev_motor1 = 0, prev_motor2 = 0, prev_time = 0\<rparr>"

text \<open>
  The body of \<open>plot_seg_with_v\<close> from the bounds check on, for the current position
  \<open>(cx, cy)\<close>. The differences \<open>x_dest - self.f_curr_x\<close> and
  \<open>y_dest - self.f_curr_y\<close> are rounded to double precision and go through the step
  mapping. The formatted debug messages are evaluated even when they are not
  logged: \<open>position / segment_length_inches\<close> can raise \<open>ZeroDivisionError\<close> and
  \<open>dest_array1[-1]\<close> raises \<open>IndexError\<close> on an empty array. The result carries the
  final loop variables of the emission loop next to the state.
\<close>

definition execute_segment ::
  "config \<Rightarrow> real \<Rightarrow> real \<Rightarrow> real \<Rightarrow> real \<Rightarrow> bool \<Rightarrow> real \<times> real \<Rightarrow> state
     \<Rightarrow> (emit_acc \<times> state) option"
where
  "execute_segment cfg x_dest y_dest v_i v_f ignore_limits cur s = do {
     let (x_dest, x_bounded) =
       (if ignore_limits then (x_dest, False)
        else checkLimitsTol x_dest (x_bounds_min cfg) (x_bounds_max cfg) (par_bounds_tolerance cfg));
     let (y_dest, y_bounded) =
       (if ignore_limits then (y_dest, False)
        else checkLimitsTol y_dest (y_bounds_min cfg) (y_bounds_max cfg) (par_bounds_tolerance cfg));
     let s = (if x_bounded \<or> y_bounded then s\<lparr>warnings := insert ''bounds'' (warnings s)\<rparr> else s);
     delta_x_inches \<leftarrow> fl64 (x_dest - fst cur);
     delta_y_inches \<leftarrow> fl64 (y_dest - snd cur);
     (motor_steps1, motor_steps2) \<leftarrow>
       motor_steps (self_step_scale cfg) delta_x_inches delta_y_inches;
     (delta_x_inches_rounded, delta_y_inches_rounded) \<leftarrow>
       rounded_delta (self_step_scale cfg) (motor_steps1, motor_steps2);
     if \<bar>motor_steps1\<bar> < 1 \<and> \<bar>motor_steps2\<bar> < 1 then Some (init_acc, s)
     else do {
       let segment_length_inches = distance delta_x_inches_rounded delta_y_inches_rounded;
       let s = add_dist segment_length_inches s;
       p \<leftarrow> motion_profile cfg (pen_up s) segment_length_inches v_i v_f;
       _ \<leftarrow> py_div (position p) segment_length_inches;
       dests \<leftarrow> scale_dests (position p) motor_steps1 motor_steps2 (dist_array p);
       if dests = [] then None
       else emit_moves cfg (zip dests (duration_array p)) init_acc s } }"

text \<open>
  \<open>plot_seg_with_v\<close>: consult the pause controller, build the debug text, return at
  once when the plot is stopped, otherwise execute the segment. The debug text is built
  before the early returns and formats \<open>self.f_curr_x\<close> with \<open>{0:1.3f}\<close>, which
  raises \<open>TypeError\<close> while the position is \<open>None\<close> (\<open>None\<close> in the model); the
  later test \<open>if self.f_curr_x is None: return\<close> is therefore never taken.
\<close>

definition plot_seg_with_v ::
  "config \<Rightarrow> pause_input \<Rightarrow> real \<Rightarrow> real \<Rightarrow> real \<Rightarrow> real \<Rightarrow> bool \<Rightarrow> state \<Rightarrow> state option"
where
  "plot_seg_with_v cfg inp x_dest y_dest v_i v_f ignore_limits s0 = do {
     s \<leftarrow> pause_res_check cfg inp s0;
     (case f_curr s of
        None \<Rightarrow> None
      | Some cur \<Rightarrow>
          if stopped s \<noteq> 0 then Some (s\<lparr>copies_to_plot := 0\<rparr>)
          else map_option snd (execute_segment cfg x_dest y_dest v_i v_f ignore_limits cur s)) }"

section \<open>Trajectory planner: \<open>plan_trajectory\<close>\<close>

text \<open>
  The trimming loop. \<open>last_pt\<close> is \<open>input_path[last_index]\<close>; the result holds, for
  every retained vertex, the length of the segment arriving there (the entries of
  \<open>traj_dists\<close> after its leading \<open>0.0\<close>), the unit vector of that segment
  (\<open>traj_vectors\<close>) and the vertex (\<open>trimmed_path\<close>). Dividing by a zero distance
  raises. \<open>traj_dists\<close> is an \<open>array('f')\<close>: it keeps the single nearest to
  \<open>tmp_dist\<close>, while the test against \<open>min_dist\<close> and the unit vector use the float.
\<close>

fun trim_path ::
  "real \<Rightarrow> real \<times> real \<Rightarrow> (real \<times> real) list
     \<Rightarrow> (real list \<times> (real \<times> real) list \<times> (real \<times> real) list) option"
where
  "trim_path min_dist last_pt [] = Some ([], [], [])"
| "trim_path min_dist last_pt (pt # pts) =
     (let tmp_dist_x = fst pt - fst last_pt;
          tmp_dist_y = snd pt - snd last_pt;
          tmp_dist = distance tmp_dist_x tmp_dist_y
      in if tmp_dist \<ge> min_dist then do {
           ux \<leftarrow> py_div tmp_dist_x tmp_dist;
           uy \<leftarrow> py_div tmp_dist_y tmp_dist;
           stored \<leftarrow> f32 tmp_dist;
           (ds, us, ps) \<leftarrow> trim_path min_dist pt pts;
           Some (stored # ds, (ux, uy) # us, pt # ps) }
         else trim_path min_dist last_pt pts)"

text \<open>
  The forward pass \<open>for i in range(1, traj_length - 1)\<close>: \<open>v_prev_exit\<close> is
  \<open>traj_vels[i - 1]\<close>, the first list starts at \<open>traj_dists[i]\<close> and the second at
  \<open>traj_vectors[i - 1]\<close>; the result lists \<open>traj_vels[i]\<close> for the interior vertices.
  \<open>traj_vels\<close> is an \<open>array('f')\<close>: \<open>traj_vels.append(vcurrent_max)\<close> keeps the
  single nearest to \<open>vcurrent_max\<close>, and that is what the next pass reads.
\<close>

fun forward_pass ::
  "real \<Rightarrow> real \<Rightarrow> real \<Rightarrow> real \<Rightarrow> real \<Rightarrow> real list \<Rightarrow> (real \<times> real) list \<Rightarrow> real list option"
where
  "forward_pass speed_limit rate accel_dist delta v_prev_exit (dcurrent # ds) (u_prev # u_cur # us) = do {
     let vcurrent_max =
       (if dcurrent > accel_dist then speed_limit
        else (let v = vFinal_Vi_A_Dx v_prev_exit rate dcurrent
              in if v > speed_limit then speed_limit else v));
     vjunction \<leftarrow> vjunction_max rate delta (cosine_factor u_prev u_cur);
     let vcurrent_max = min vcurrent_max vjunction;
     stored \<leftarrow> f32 vcurrent_max;
     rest \<leftarrow> forward_pass speed_limit rate accel_dist delta stored ds (u_cur # us);
     Some (stored # rest) }"
| "forward_pass speed_limit rate accel_dist delta v_prev_exit ds us = Some []"

text \<open>
  The reverse pass \<open>for j in range(1, traj_length): i = traj_length - j\<close>, counting
  \<open>i\<close> down from its first argument to \<open>1\<close>. The assignment
  \<open>traj_vels[i - 1] = v_initial\<close> stores a single.
\<close>

fun reverse_pass :: "real \<Rightarrow> real list \<Rightarrow> nat \<Rightarrow> real list \<Rightarrow> real list option" where
  "reverse_pass rate traj_dists 0 traj_vels = Some traj_vels"
| "reverse_pass rate traj_dists (Suc k) traj_vels =
     (let v_final = traj_vels ! Suc k;
          v_initial = traj_vels ! k;
          seg_length = traj_dists ! Suc k
      in if v_initial > v_final \<and> seg_length > 0 then do {
           let v_init_max = vInitial_VF_A_Dx v_final (- rate) seg_length;
           stored \<leftarrow> f32 (if v_init_max < v_initial then v_init_max else v_initial);
           reverse_pass rate traj_dists k (traj_vels[k := stored]) }
         else reverse_pass rate traj_dists k traj_vels)"

text \<open>The acceleration rate and the speed limit that the pen state selects.\<close>

definition active_accel_rate :: "config \<Rightarrow> bool \<Rightarrow> real" where
  "active_accel_rate cfg is_pen_up =
     (if is_pen_up then par_accel_rate_pu cfg * opt_accel cfg / 100
      else par_accel_rate cfg * opt_accel cfg / 100)"

definition active_speed_limit :: "config \<Rightarrow> bool \<Rightarrow> real" where
  "active_speed_limit cfg is_pen_up =
     (if is_pen_up then self_speed_penup cfg else self_speed_pendown cfg)"

definition min_dist :: "config \<Rightarrow> real" where
  "min_dist cfg =
     (if opt_resolution cfg = 1 then par_max_step_dist_hr cfg else par_max_step_dist_lr cfg)"

text \<open>
  The speed planning proper, from the trimmed arrays to the final \<open>traj_vels\<close>:
  \<open>ds\<close> is \<open>traj_dists\<close> without its leading \<open>0.0\<close>.
\<close>

definition plan_speeds :: "config \<Rightarrow> bool \<Rightarrow> real list \<Rightarrow> (real \<times> real) list \<Rightarrow> real list option" where
  "plan_speeds cfg is_pen_up ds traj_vectors = do {
     let speed_limit = active_speed_limit cfg is_pen_up;
     let traj_dists = 0 # ds;
     let traj_length = length traj_dists;
     let rate = active_accel_rate cfg is_pen_up;
     t_max \<leftarrow> py_div speed_limit rate;
     let accel_dist = 0.5 * rate * t_max * t_max;
     let delta = par_cornering cfg / 5000;
     vs \<leftarrow> forward_pass speed_limit rate accel_dist delta 0 ds traj_vectors;
     let traj_vels = 0 # vs @ [0];
     reverse_pass rate traj_dists (traj_length - 1) traj_vels }"

text \<open>
  The closing loop of \<open>plan_trajectory\<close>: one \<open>plot_seg_with_v\<close> call per planned
  segment, \<open>(trimmed_path[i], traj_vels[i], traj_vels[i + 1])\<close>. \<open>inps\<close> supplies what
  the pause controller reads at each call.
\<close>

fun plot_segments ::
  "config \<Rightarrow> pause_input list \<Rightarrow> (real \<times> real) list \<Rightarrow> real list \<Rightarrow> state \<Rightarrow> state option"
where
  "plot_segments cfg (inp # inps) (pt # pts) (v0 # v1 # vs) s = do {
     s' \<leftarrow> plot_seg_with_v cfg inp (fst pt) (snd pt) v0 v1 False s;
     plot_segments cfg inps pts (v1 # vs) s' }"
| "plot_segments cfg inps pts vs s = Some s"

text \<open>
  \<open>plan_trajectory\<close>: nothing when the plot is stopped, the position unknown or the
  path shorter than two points; a single segment at zero end speeds for a path of two
  points or with one segment left after trimming; otherwise the planned segments.
\<close>

definition plan_trajectory ::
  "config \<Rightarrow> pause_input list \<Rightarrow> (real \<times> real) list \<Rightarrow> state \<Rightarrow> state option"
where
  "plan_trajectory cfg inps input_path s =
     (if stopped s \<noteq> 0 then Some s
      else if f_curr s = None then Some s
      else (case input_path of
          [] \<Rightarrow> Some s
        | [p0] \<Rightarrow> Some s
        | [p0, p1] \<Rightarrow> plot_segments cfg inps [p1] [0, 0] s
        | p0 # pts \<Rightarrow> do {
            (ds, traj_vectors, trimmed_path) \<leftarrow> trim_path (min_dist cfg) p0 pts;
            if length ds < 1 then Some s
            else if length ds < 2 then plot_segments cfg inps [hd trimmed_path] [0, 0] s
            else do {
              traj_vels \<leftarrow> plan_speeds cfg (pen_up s) ds traj_vectors;
              plot_segments cfg inps trimmed_path traj_vels s } }))"

text \<open>
  The arrays \<open>(traj_dists, trimmed_path, traj_vels)\<close> that \<open>plan_trajectory\<close> plans
  for a path; \<open>None\<close> when it plans no speeds (fewer than three points, or fewer than
  two segments left after trimming) or raises.
\<close>

definition plan_velocities ::
  "config \<Rightarrow> bool \<Rightarrow> (real \<times> real) list \<Rightarrow> (real list \<times> (real \<times> real) list \<times> real list) option"
where
  "plan_velocities cfg is_pen_up input_path =
     (case input_path of
        p0 # p1 # p2 # rest \<Rightarrow> do {
          (ds, traj_vectors, trimmed_path) \<leftarrow> trim_path (min_dist cfg) p0 (p1 # p2 # rest);
          if length ds < 2 then None
          else do {
            traj_vels \<leftarrow> plan_speeds cfg is_pen_up ds traj_vectors;
            Some (0 # ds, trimmed_path, traj_vels) } }
      | _ \<Rightarrow> None)"

section \<open>Progress persistence: \<open>read_plotdata\<close>\<close>

text \<open>
  A \<open>plotdata\<close> element is its attribute dictionary; \<open>data_node.get(k)\<close> is the
  lookup, \<open>None\<close> for a missing attribute. The part of the driver object that
  \<open>read_plotdata\<close> touches, with \<open>plotdata_nodes\<close> the \<open>plotdata\<close> elements of
  the document \<open>self.svg\<close> in document order (the function is called on \<open>self.svg\<close>,
  and \<open>update_plotdata\<close> creates these elements as children of its root).
\<close>

type_synonym attrs = "string \<rightharpoonup> string"

record resume_data =
  svg_data_read :: bool
  svg_layer_old :: int
  svg_node_count_old :: int
  svg_last_path_old :: int
  svg_last_path_nc_old :: int
  svg_last_known_x_old :: real
  svg_last_known_y_old :: real
  svg_paused_x_old :: real
  svg_paused_y_old :: real
  svg_application_old :: "string option"
  svg_plob_version :: "string option"
  svg_row_old :: int
  svg_rand_seed_old :: int
  plotdata_nodes :: "attrs list"

datatype py_exc = TypeError | ValueError

text \<open>
  \<open>int(x)\<close> and \<open>float(x)\<close> on the result of \<open>get\<close>: \<open>TypeError\<close> on \<open>None\<close>,
  \<open>ValueError\<close> on text that does not parse. The text syntax of Python's numbers is
  a parameter: \<open>pint\<close> and \<open>pfloat\<close> return \<open>None\<close> for text they reject.
\<close>

definition py_int :: "(string \<Rightarrow> int option) \<Rightarrow> string option \<Rightarrow> py_exc + int" where
  "py_int pint x =
     (case x of
        None \<Rightarrow> Inl TypeError
      | Some t \<Rightarrow> (case pint t of None \<Rightarrow> Inl ValueError | Some n \<Rightarrow> Inr n))"

definition py_float :: "(string \<Rightarrow> real option) \<Rightarrow> string option \<Rightarrow> py_exc + real" where
  "py_float pfloat x =
     (case x of
        None \<Rightarrow> Inl TypeError
      | Some t \<Rightarrow> (case pfloat t of None \<Rightarrow> Inl ValueError | Some v \<Rightarrow> Inr v))"


text \<open>
  A statement inside a \<open>try\<close> body: it either raises, leaving the object as the
  statements before it made it, or assigns. \<open>then_stmt\<close> runs the next statement only
  if nothing was raised.
\<close>

definition assign ::
  "py_exc + 'a \<Rightarrow> ('a \<Rightarrow> resume_data \<Rightarrow> resume_data) \<Rightarrow> resume_data \<Rightarrow> py_exc option \<times> resume_data"
where
  "assign v upd r = (case v of Inl e \<Rightarrow> (Some e, r) | Inr a \<Rightarrow> (None, upd a r))"

definition then_stmt ::
  "py_exc option \<times> resume_data \<Rightarrow> (resume_data \<Rightarrow> py_exc option \<times> resume_data)
     \<Rightarrow> py_exc option \<times> resume_data"
where
  "then_stmt m f = (case m of (Some e, r) \<Rightarrow> (Some e, r) | (None, r) \<Rightarrow> f r)"

text \<open>The body of the first \<open>try\<close>: the core data required for resuming plots.\<close>

definition read_core ::
  "(string \<Rightarrow> int option) \<Rightarrow> (string \<Rightarrow> real option) \<Rightarrow> attrs \<Rightarrow> resume_data
     \<Rightarrow> py_exc option \<times> resume_data"
where
  "read_core pint pfloat data_node r =
     then_stmt (assign (py_int pint (data_node ''layer'')) (\<lambda>v r. r\<lparr>svg_layer_old := v\<rparr>) r) (\<lambda>r.
     then_stmt (assign (py_int pint (data_node ''node'')) (\<lambda>v r. r\<lparr>svg_node_count_old := v\<rparr>) r) (\<lambda>r.
     then_stmt (assign (py_int pint (data_node ''last_path'')) (\<lambda>v r. r\<lparr>svg_last_path_old := v\<rparr>) r) (\<lambda>r.
     then_stmt (assign (py_int pint (data_node ''node_after_path''))
                  (\<lambda>v r. r\<lparr>svg_last_path_nc_old := v\<rparr>) r) (\<lambda>r.
     then_stmt (assign (py_float pfloat (data_node ''last_known_x''))
                  (\<lambda>v r. r\<lparr>svg_last_known_x_old := v\<rparr>) r) (\<lambda>r.
     then_stmt (assign (py_float pfloat (data_node ''last_known_y''))
                  (\<lambda>v r. r\<lparr>svg_last_known_y_old := v\<rparr>) r) (\<lambda>r.
     then_stmt (assign (py_float pfloat (data_node ''paused_x'')) (\<lambda>v r. r\<lparr>svg_paused_x_old := v\<rparr>) r) (\<lambda>r.
     then_stmt (assign (py_float pfloat (data_node ''paused_y'')) (\<lambda>v r. r\<lparr>svg_paused_y_old := v\<rparr>) r) (\<lambda>r.
     (None, r\<lparr>svg_data_read := True,
              svg_application_old := data_node ''application'',
              svg_plob_version := data_node ''plob_version''\<rparr>)))))))))"



text \<open>The attributes that the first \<open>try\<close> reads, in the order of reading.\<close>

definition core_keys :: "string list" where
  "core_keys = [''layer'', ''node'', ''last_path'', ''node_after_path'',
                ''last_known_x'', ''last_known_y'', ''paused_x'', ''paused_y'']"

text \<open>
  The first \<open>j\<close> core attributes are present, so that the \<open>try\<close> body gets past its
  \<open>j\<close>-th assignment unless a text fails to parse.
\<close>

definition read_before :: "nat \<Rightarrow> attrs \<Rightarrow> bool" where
  "read_before j d \<longleftrightarrow> (\<forall>k \<in> set (take j core_keys). d k \<noteq> None)"





section \<open>Reading the command stream; sample values\<close>

text \<open>The timed XY moves in a command stream and the steps they carry on each motor.\<close>

definition is_xy_move :: "command \<Rightarrow> bool" where
  "is_xy_move c = (case c of XYMove a b t \<Rightarrow> True | _ \<Rightarrow> False)"

definition xy_moves :: "command list \<Rightarrow> command list" where
  "xy_moves cs = filter is_xy_move cs"

text \<open>
  \<open>doXYMove\<close> is called with \<open>(move_steps2, move_steps1, move_time)\<close>: the second
  argument of an \<open>XYMove\<close> is the delta of motor 1, the first that of motor 2.
\<close>

definition steps1_of :: "command \<Rightarrow> int" where
  "steps1_of c = (case c of XYMove a b t \<Rightarrow> b | _ \<Rightarrow> 0)"

definition steps2_of :: "command \<Rightarrow> int" where
  "steps2_of c = (case c of XYMove a b t \<Rightarrow> a | _ \<Rightarrow> 0)"

text \<open>
  A configuration with the 16X microstepping scale \<open>2032\<close>, constant-speed pen-down
  motion at \<open>985/2032\<close> inches per second and the default limits, and a running plot at
  the origin with the pen down, used to evaluate the functions on concrete inputs.
\<close>

definition sample_cfg :: config where
  "sample_cfg =
     \<lparr>opt_preview = False, opt_mode = ''plot'', opt_const_speed = True, opt_accel = 75,
      opt_resolution = 1, par_accel_rate = 40, par_accel_rate_pu = 60,
      par_time_slice = 1 / 40, par_max_step_rate = 24995 / 1000, par_bounds_tolerance = 3 / 1000,
      par_cornering = 10, par_max_step_dist_hr = 696 / 1000000,
      par_max_step_dist_lr = 1392 / 1000000, self_step_scale = 2032,
      self_speed_pendown = 985 / 2032, self_speed_penup = 6,
      x_bounds_min = 0, x_bounds_max = 11, y_bounds_min = 0, y_bounds_max = 17 / 2,
      self_secondary = False\<rparr>"

definition sample_state :: state where
  "sample_state =
     \<lparr>stopped = 0, resume_mode = False, copies_to_plot = 1, delay_between_copies = False,
      port_open = True, connected = True, node_count = 7, node_target = 0, svg_node_count = 0,
      f_curr = Some (0, 0), pt_first = (0, 0), svg_paused_x = 0, svg_paused_y = 0,
      svg_last_known_pos_x = 0, svg_last_known_pos_y = 0, pen_up = False,
      virtual_pen_up = False, progress_enable = False, progress_total = 0, warnings = {},
      up_travel = 0, down_travel = 0, pt_estimate = 0, commands = []\<rparr>"


definition button_up :: pause_input where
  "button_up = \<lparr>pause_request = False, str_button = ''0''\<rparr>"

definition button_down :: pause_input where
  "button_down = \<lparr>pause_request = False, str_button = ''1''\<rparr>"

text \<open>
  The relation between the arrays and \<open>position\<close> that the profile cases maintain:
  the two arrays have the same length, and the last distance appended is the current
  \<open>position\<close>.
\<close>

definition profile_ok :: "profile \<Rightarrow> bool" where
  "profile_ok p \<longleftrightarrow> length (duration_array p) = length (dist_array p)
     \<and> (dist_array p = [] \<and> position p = 0
        \<or> dist_array p \<noteq> [] \<and> last (dist_array p) = position p)"

section \<open>Properties\<close>

subsection \<open>Rounding\<close>

lemma py_round_error: "\<bar>of_int (py_round x) - x\<bar> \<le> 1 / 2"
proof -
  have "of_int \<lfloor>x\<rfloor> \<le> x" and "x < of_int \<lfloor>x\<rfloor> + 1"
    by linarith+
  then show ?thesis
    unfolding py_round_def Let_def by (auto simp: abs_le_iff)
qed

lemma py_round_of_int [simp]: "py_round (of_int m) = m"
  by (simp add: py_round_def)

lemma py_round_zero [simp]: "py_round 0 = 0"
  using py_round_of_int [of 0] by simp

lemma py_round_near:
  assumes "\<bar>x - of_int m\<bar> < 1 / 2"
  shows "py_round x = m"
proof -
  from py_round_error [of x] assms have "\<bar>(of_int (py_round x) :: real) - of_int m\<bar> < 1" by linarith
  then have "\<bar>(of_int (py_round x - m) :: real)\<bar> < 1" by simp
  then have "\<bar>py_round x - m\<bar> < 1" by (simp only: of_int_abs [symmetric] of_int_less_1_iff)
  then show ?thesis by simp
qed

lemma py_round_nonneg: "0 \<le> x \<Longrightarrow> 0 \<le> py_round x"
  by (auto simp: py_round_def Let_def)

lemma ilog2_bounds: "0 < x \<Longrightarrow> 2 powi (ilog2 x) \<le> x \<and> x < 2 powi (ilog2 x + 1)"
proof (induction x rule: ilog2.induct)
  case (1 x)
  note unf = ilog2.simps [of x]
  show ?case
  proof (cases "2 \<le> x")
    case True
    with "1.prems" unf have e: "ilog2 x = ilog2 (x / 2) + 1" by simp
    from "1.prems" have "0 < x / 2" by simp
    from "1.IH"(1) [OF _ True this] "1.prems"
    have ih: "2 powi (ilog2 (x / 2)) \<le> x / 2" "x / 2 < 2 powi (ilog2 (x / 2) + 1)" by simp_all
    have "2 powi (ilog2 (x / 2) + 1) = 2 powi (ilog2 (x / 2)) * (2::real)"
      by (simp add: power_int_add)
    moreover have "2 powi (ilog2 (x / 2) + 1 + 1) = 2 powi (ilog2 (x / 2) + 1) * (2::real)"
      by (simp add: power_int_add)
    ultimately show ?thesis unfolding e using ih by simp
  next
    case False
    show ?thesis
    proof (cases "x < 1")
      case True
      with "1.prems" False unf have e: "ilog2 x = ilog2 (x * 2) - 1" by simp
      from "1.prems" have "0 < x * 2" by simp
      from "1.IH"(2) [OF _ False True this] "1.prems"
      have ih: "2 powi (ilog2 (x * 2)) \<le> x * 2" "x * 2 < 2 powi (ilog2 (x * 2) + 1)" by simp_all
      have "2 powi (ilog2 (x * 2)) = 2 powi (ilog2 (x * 2) - 1) * (2::real)"
        by (simp add: power_int_diff)
      moreover have "2 powi (ilog2 (x * 2) + 1) = 2 powi (ilog2 (x * 2)) * (2::real)"
        by (simp add: power_int_add)
      ultimately show ?thesis unfolding e using ih by simp
    next
      case ge1: False
      with "1.prems" False unf have e: "ilog2 x = 0" by simp
      with False ge1 show ?thesis by simp
    qed
  qed
qed

lemma ilog2_less:
  assumes "0 < x" and "x < 2 powi k"
  shows "ilog2 x < k"
proof (rule ccontr)
  assume "\<not> ilog2 x < k"
  then have "k \<le> ilog2 x" by simp
  then have "(2::real) powi k \<le> 2 powi (ilog2 x)" by (intro power_int_increasing) simp_all
  with ilog2_bounds [OF assms(1)] assms(2) show False by linarith
qed

lemma ilog2_ge:
  assumes "0 < x" and "2 powi k \<le> x"
  shows "k \<le> ilog2 x"
proof (rule ccontr)
  assume "\<not> k \<le> ilog2 x"
  then have "ilog2 x + 1 \<le> k" by simp
  then have "(2::real) powi (ilog2 x + 1) \<le> 2 powi k" by (intro power_int_increasing) simp_all
  with ilog2_bounds [OF assms(1)] assms(2) show False by linarith
qed

lemma ilog2_eq: "2 powi k \<le> x \<Longrightarrow> x < 2 powi (k + 1) \<Longrightarrow> ilog2 x = k"
proof -
  assume a: "2 powi k \<le> x" and b: "x < 2 powi (k + 1)"
  have "0 < (2::real) powi k" by simp
  with a have x0: "0 < x" by linarith
  from ilog2_less [OF x0 b] ilog2_ge [OF x0 a] show ?thesis by simp
qed

lemma round_fp_zero [simp]: "round_fp p emin 0 = 0"
  by (simp add: round_fp_def)

lemma round_fp_nonneg: "0 \<le> x \<Longrightarrow> 0 \<le> round_fp p emin x"
  unfolding round_fp_def Let_def
  by (intro mult_nonneg_nonneg) (simp_all add: py_round_nonneg)

lemma round_fp_error:
  "\<bar>round_fp p emin x - x\<bar> \<le> 2 powi (max (ilog2 \<bar>x\<bar>) emin - int p)"
proof -
  define e where "e = max (ilog2 \<bar>x\<bar>) emin"
  define ulp :: real where "ulp = 2 powi (e - int p + 1)"
  have upos: "0 < ulp" by (simp add: ulp_def)
  have r: "round_fp p emin x = of_int (py_round (x / ulp)) * ulp"
    by (simp add: round_fp_def Let_def e_def ulp_def)
  have "of_int (py_round (x / ulp)) * ulp - x = (of_int (py_round (x / ulp)) - x / ulp) * ulp"
    using upos by (simp add: left_diff_distrib)
  then have "\<bar>of_int (py_round (x / ulp)) * ulp - x\<bar> = \<bar>of_int (py_round (x / ulp)) - x / ulp\<bar> * \<bar>ulp\<bar>"
    by (simp only: abs_mult)
  also have "\<dots> = \<bar>of_int (py_round (x / ulp)) - x / ulp\<bar> * ulp"
    using upos by simp
  also have "\<dots> \<le> 1 / 2 * ulp"
    using py_round_error [of "x / ulp"] upos by (intro mult_right_mono) simp_all
  also have "\<dots> = 2 powi (e - int p)"
    unfolding ulp_def by (simp add: power_int_add)
  finally show ?thesis unfolding r e_def .
qed

lemma round_fp_bound:
  "\<bar>round_fp p emin x - x\<bar> \<le> \<bar>x\<bar> * 2 powi (- int p) + 2 powi (emin - int p)"
proof (cases "x = 0")
  case True
  then show ?thesis by simp
next
  case nz: False
  show ?thesis
  proof (cases "ilog2 \<bar>x\<bar> \<le> emin")
    case True
    then have "max (ilog2 \<bar>x\<bar>) emin = emin" by simp
    with round_fp_error [of p emin x] have "\<bar>round_fp p emin x - x\<bar> \<le> 2 powi (emin - int p)" by simp
    moreover have "0 \<le> \<bar>x\<bar> * 2 powi (- int p)" by simp
    ultimately show ?thesis by linarith
  next
    case False
    with nz have m: "max (ilog2 \<bar>x\<bar>) emin = ilog2 \<bar>x\<bar>" and x0: "0 < \<bar>x\<bar>" by auto
    from ilog2_bounds [OF x0] have "2 powi (ilog2 \<bar>x\<bar>) \<le> \<bar>x\<bar>" by simp
    then have "2 powi (ilog2 \<bar>x\<bar>) * 2 powi (- int p) \<le> \<bar>x\<bar> * 2 powi (- int p)"
      by (intro mult_right_mono) simp_all
    moreover have "2 powi (ilog2 \<bar>x\<bar> - int p) = 2 powi (ilog2 \<bar>x\<bar>) * (2::real) powi (- int p)"
      by (simp add: power_int_diff power_int_minus field_simps)
    moreover have "0 \<le> (2::real) powi (emin - int p)" by simp
    ultimately show ?thesis using round_fp_error [of p emin x] unfolding m by linarith
  qed
qed

text \<open>A number of the format is not changed by the rounding.\<close>

lemma round_fp_exact:
  assumes x: "x = of_int M * 2 powi k" and M: "\<bar>M\<bar> < 2 ^ p" and k: "emin - int p + 1 \<le> k"
  shows "round_fp p emin x = x"
proof (cases "M = 0")
  case True
  with x show ?thesis by simp
next
  case False
  then have "0 < \<bar>(of_int M :: real)\<bar>" by simp
  then have x0: "0 < \<bar>x\<bar>" unfolding x by (simp add: abs_mult)
  define e where "e = max (ilog2 \<bar>x\<bar>) emin"
  define j where "j = e - int p + 1"
  have "\<bar>x\<bar> = \<bar>of_int M\<bar> * 2 powi k" unfolding x by (simp add: abs_mult)
  also have "\<dots> < 2 ^ p * 2 powi k"
  proof -
    from M have "\<bar>(of_int M :: real)\<bar> < 2 ^ p"
      by (metis of_int_abs of_int_less_numeral_power_cancel_iff)
    then show ?thesis by (intro mult_strict_right_mono) simp_all
  qed
  also have "\<dots> = 2 powi (int p + k)" by (simp add: power_int_add)
  finally have "ilog2 \<bar>x\<bar> < int p + k" using ilog2_less [OF x0] by simp
  with k have jk: "j \<le> k" unfolding j_def e_def by simp
  then obtain n where n: "k = j + int n" by (metis zle_iff_zadd)
  have "x / 2 powi j = of_int M * (2 powi k / 2 powi j)" unfolding x by simp
  also have "2 powi k / 2 powi j = (2::real) ^ n" unfolding n by (simp add: power_int_add)
  also have "of_int M * (2::real) ^ n = of_int (M * 2 ^ n)" by simp
  finally have "py_round (x / 2 powi j) = M * 2 ^ n" by (simp only: py_round_of_int)
  then have "round_fp p emin x = of_int (M * 2 ^ n) * 2 powi j"
    unfolding round_fp_def Let_def e_def [symmetric] j_def [symmetric] by simp
  also have "\<dots> = of_int M * (2 ^ n * 2 powi j)" by simp
  also have "2 ^ n * 2 powi j = (2::real) powi k" unfolding n by (simp add: power_int_add)
  finally show ?thesis unfolding x .
qed


lemma f32_error:
  assumes "f32 x = Some y"
  shows "\<bar>y - x\<bar> \<le> \<bar>x\<bar> / 2 ^ 24 + 1 / 2 ^ 150"
proof -
  from assms have y: "y = round_fp 24 (- 126) x"
    by (auto simp: f32_def Let_def split: if_splits)
  have "(2::real) powi (- int 24) = 1 / 2 ^ 24" by (simp add: power_int_minus_divide)
  moreover have "(2::real) powi (- 126 - int 24) = 1 / 2 ^ 150"
    using power_int_minus_divide [of "2::real" 150] by simp
  ultimately show ?thesis using round_fp_bound [of 24 "- 126" x] unfolding y by simp
qed

lemma fl64_nonneg: "fl64 x = Some y \<Longrightarrow> 0 \<le> x \<Longrightarrow> 0 \<le> y"
  by (auto simp: fl64_def Let_def round_fp_nonneg split: if_splits)

lemma f32_nonneg: "f32 x = Some y \<Longrightarrow> 0 \<le> x \<Longrightarrow> 0 \<le> y"
  by (auto simp: f32_def Let_def round_fp_nonneg split: if_splits)

lemma fl64_exact:
  assumes "x = of_int M * 2 powi k" and "\<bar>M\<bar> < 2 ^ 53" and "- 1074 \<le> k" and "\<bar>x\<bar> < 2 ^ 1024"
  shows "fl64 x = Some x"
proof -
  from assms(3) have "- 1022 - int 53 + 1 \<le> k" by simp
  from round_fp_exact [OF assms(1,2) this] assms(4) show ?thesis
    by (simp add: fl64_def)
qed

lemma f32_exact:
  assumes "x = of_int M * 2 powi k" and "\<bar>M\<bar> < 2 ^ 24" and "- 149 \<le> k" and "\<bar>x\<bar> < 2 ^ 128"
  shows "f32 x = Some x"
proof -
  from assms(3) have "- 126 - int 24 + 1 \<le> k" by simp
  from round_fp_exact [OF assms(1,2) this] assms(4) show ?thesis
    by (simp add: f32_def)
qed

lemma fl64_zero [simp]: "fl64 0 = Some 0"
  by (simp add: fl64_def)

lemma f32_zero [simp]: "f32 0 = Some 0"
  by (simp add: f32_def)

text \<open>Whole numbers below \<open>2\<^sup>5\<^sup>3\<close> in size are floats.\<close>

lemma fl64_of_int:
  assumes "\<bar>m\<bar> < 2 ^ 53"
  shows "fl64 (of_int m) = Some (of_int m)"
proof -
  have "\<bar>(of_int m :: real)\<bar> < 2 ^ 53"
    using assms by (metis of_int_abs of_int_less_numeral_power_cancel_iff)
  also have "(2::real) ^ 53 \<le> 2 ^ 1024" by (intro power_increasing) simp_all
  finally have "\<bar>(of_int m :: real)\<bar> < 2 ^ 1024" .
  with fl64_exact [of "of_int m" m 0] assms show ?thesis by simp
qed

text \<open>A result that is not too large is finite.\<close>

lemma fl64_finite:
  assumes "\<bar>x\<bar> \<le> 2 ^ 1000"
  shows "\<exists>y. fl64 x = Some y"
proof -
  have "(2::real) powi (- int 53) = 1 / 2 ^ 53" by (simp add: power_int_minus_divide)
  moreover have "(2::real) powi (- 1022 - int 53) = 1 / 2 ^ 1075"
    using power_int_minus_divide [of "2::real" 1075] by simp
  ultimately have "\<bar>round_fp 53 (- 1022) x - x\<bar> \<le> \<bar>x\<bar> / 2 ^ 53 + 1 / 2 ^ 1075"
    using round_fp_bound [of 53 "- 1022" x] by simp
  also have "\<dots> \<le> \<bar>x\<bar> + 1" 
  proof -
    have "\<bar>x\<bar> / 2 ^ 53 \<le> \<bar>x\<bar> / 1" by (intro divide_left_mono) simp_all
    moreover have "(1::real) / 2 ^ 1075 \<le> 1" by simp
    ultimately show ?thesis by simp
  qed
  finally have "\<bar>round_fp 53 (- 1022) x\<bar> \<le> 2 * \<bar>x\<bar> + 1" by linarith
  also have "\<dots> \<le> 2 * 2 ^ 1000 + 1" using assms by simp
  also have "\<dots> < (2::real) ^ 1024" by simp
  finally show ?thesis by (simp add: fl64_def)
qed

subsection \<open>Step-scale round trip\<close>

text \<open>Evaluating a rounding: the exponent and the rounded significand are given.\<close>

lemma fl64_eval:
  assumes "2 powi e \<le> \<bar>x\<bar>" and "\<bar>x\<bar> < 2 powi (e + 1)" and "- 1022 \<le> e"
    and "py_round (x / 2 powi (e - 52)) = M" and "\<bar>of_int M * 2 powi (e - 52)\<bar> < (2::real) ^ 1024"
  shows "fl64 x = Some (of_int M * 2 powi (e - 52))"
proof -
  from ilog2_eq [OF assms(1,2)] assms(3) have "max (ilog2 \<bar>x\<bar>) (- 1022) = e" by simp
  then have "round_fp 53 (- 1022) x = of_int M * 2 powi (e - 52)"
    unfolding round_fp_def Let_def using assms(4) by simp
  with assms(5) show ?thesis by (simp add: fl64_def)
qed

lemma f32_eval:
  assumes "2 powi e \<le> \<bar>x\<bar>" and "\<bar>x\<bar> < 2 powi (e + 1)" and "- 126 \<le> e"
    and "py_round (x / 2 powi (e - 23)) = M" and "\<bar>of_int M * 2 powi (e - 23)\<bar> < (2::real) ^ 128"
  shows "f32 x = Some (of_int M * 2 powi (e - 23))"
proof -
  from ilog2_eq [OF assms(1,2)] assms(3) have "max (ilog2 \<bar>x\<bar>) (- 126) = e" by simp
  then have "round_fp 24 (- 126) x = of_int M * 2 powi (e - 23)"
    unfolding round_fp_def Let_def using assms(4) by simp
  with assms(5) show ?thesis by (simp add: f32_def)
qed













subsection \<open>Cornering cap\<close>

text \<open>
  C7, as stated, fails: at \<open>c = 1\<close> the code computes \<open>root_factor = 0\<close>, so
  \<open>rfactor = 0\<close> (not \<open>10\<^sup>5\<close>) and the junction limit is \<open>0\<close>; at \<open>c = -1\<close> it
  computes \<open>root_factor = 1\<close>, takes the straight-through branch \<open>rfactor = 10\<^sup>5\<close>
  and the junction limit is \<open>\<surd>(a \<cdot> 10\<^sup>5)\<close>, which is not \<open>0\<close>. Shown for
  \<open>accel_rate = 40\<close> and \<open>delta = 1/500\<close>, where \<open>\<surd>(40 \<cdot> 10\<^sup>5) = 2000\<close>.
\<close>

theorem C7_cosine_labels_counterexample:
  "junction_rfactor (1 / 500) 1 = Some 0 \<and> vjunction_max 40 (1 / 500) 1 = Some 0 \<and>
   junction_rfactor (1 / 500) (- 1) = Some 100000 \<and> vjunction_max 40 (1 / 500) (- 1) = Some 2000"
proof -
  show ?thesis
    by (simp add: junction_rfactor_def vjunction_max_def py_sqrt_def py_div_def)
qed

text \<open>
  C7 (amended): with \<open>c = - \<^bold>u\<^sub>i\<^sub>-\<^sub>1 \<cdot> \<^bold>u\<^sub>i\<close>, two consecutive unit vectors pointing the
  same way give \<open>c = -1\<close>, \<open>\<rho> = 10\<^sup>5\<close> and the junction limit \<open>\<surd>(a \<cdot> 10\<^sup>5)\<close>
  (effectively unbounded, clamped by the other limits); a 180 degree reversal gives
  \<open>c = 1\<close>, \<open>\<rho> = 0\<close> and the junction limit \<open>0\<close>.
\<close>

theorem C7_cornering_cap:
  assumes "ux * ux + uy * uy = 1" and "0 \<le> accel_rate"
  shows "cosine_factor (ux, uy) (ux, uy) = - 1
    \<and> junction_rfactor delta (cosine_factor (ux, uy) (ux, uy)) = Some 100000
    \<and> vjunction_max accel_rate delta (cosine_factor (ux, uy) (ux, uy))
        = Some (sqrt (accel_rate * 100000))
    \<and> cosine_factor (ux, uy) (- ux, - uy) = 1
    \<and> junction_rfactor delta (cosine_factor (ux, uy) (- ux, - uy)) = Some 0
    \<and> vjunction_max accel_rate delta (cosine_factor (ux, uy) (- ux, - uy)) = Some 0"
proof -
  have same: "cosine_factor (ux, uy) (ux, uy) = - 1"
    using assms(1) by (simp add: cosine_factor_def dotProductXY_def)
  have rev: "cosine_factor (ux, uy) (- ux, - uy) = 1"
    using assms(1) by (simp add: cosine_factor_def dotProductXY_def)
  show ?thesis
    unfolding same rev using assms(2)
    by (simp add: junction_rfactor_def vjunction_max_def py_sqrt_def py_div_def)
qed

theorem C7_cornering_cap_witness:
  "(3 / 5) * (3 / 5) + (4 / 5) * (4 / 5) = (1::real)
   \<and> (0::real) \<le> 40
   \<and> vjunction_max 40 (1 / 500) (cosine_factor (3 / 5, 4 / 5) (3 / 5, 4 / 5))
       = Some (sqrt (40 * 100000))
   \<and> vjunction_max 40 (1 / 500) (cosine_factor (3 / 5, 4 / 5) (- (3 / 5), - (4 / 5))) = Some 0"
proof -
  have u: "(3 / 5) * (3 / 5) + (4 / 5) * (4 / 5) = (1::real)" by simp
  have a: "(0::real) \<le> 40" by simp
  from C7_cornering_cap [OF u a, of "1 / 500"] u a show ?thesis by blast
qed

subsection \<open>Pause controller and executor: what a call leaves unchanged\<close>

lemma pen_raise_fields [simp]:
  "node_count (pen_raise s) = node_count s" "stopped (pen_raise s) = stopped s"
  "node_target (pen_raise s) = node_target s"
  "xy_moves (commands (pen_raise s)) = xy_moves (commands s)"
  by (simp_all add: pen_raise_def xy_moves_def is_xy_move_def)

lemma execute_move_fields:
  assumes "execute_move cfg m1 m2 t s = Some s'"
  shows "node_count s' = node_count s" "stopped s' = stopped s" "resume_mode s' = resume_mode s"
    "node_target s' = node_target s"
  using assms
  by (auto simp: execute_move_def Let_def split: if_splits option.splits prod.splits Option.bind_splits)

lemma execute_move_stopped:
  assumes "execute_move cfg m1 m2 t s = Some s'" and "stopped s \<noteq> 0 \<or> resume_mode s"
  shows "s' = s"
  using assms
  by (auto simp: execute_move_def Let_def split: if_splits option.splits prod.splits Option.bind_splits)

lemma emit_moves_fields:
  assumes "emit_moves cfg ts acc s = Some (acc', s')"
  shows "node_count s' = node_count s \<and> stopped s' = stopped s \<and> resume_mode s' = resume_mode s
    \<and> node_target s' = node_target s"
  using assms
proof (induction ts arbitrary: acc s)
  case Nil
  then show ?case by simp
next
  case (Cons a ts)
  obtain d1 d2 du where a: "a = ((d1, d2), du)" by (cases a) auto
  from Cons.prems obtain m1 m2 t s1 acc1 where
    em: "execute_move cfg m1 m2 t s = Some s1" and
    rest: "emit_moves cfg ts acc1 s1 = Some (acc', s')"
    unfolding a by (auto simp: Let_def split: Option.bind_splits)
  from Cons.IH[OF rest] execute_move_fields[OF em] show ?case by simp
qed

lemma add_dist_fields [simp]:
  "node_count (add_dist l s) = node_count s" "stopped (add_dist l s) = stopped s"
  "resume_mode (add_dist l s) = resume_mode s" "node_target (add_dist l s) = node_target s"
  "commands (add_dist l s) = commands s"
  by (simp_all add: add_dist_def)

lemma execute_segment_fields:
  assumes "execute_segment cfg x y vi vf il cur s = Some (acc', s')"
  shows "node_count s' = node_count s \<and> stopped s' = stopped s \<and> resume_mode s' = resume_mode s
    \<and> node_target s' = node_target s"
  using assms
  by (auto simp: execute_segment_def Let_def split: prod.splits if_splits Option.bind_splits
        dest!: emit_moves_fields)

lemma plot_seg_node:
  assumes "plot_seg_with_v cfg inp x y vi vf il s = Some s'"
  shows "\<exists>s1. pause_res_check cfg inp s = Some s1 \<and> node_count s' = node_count s1
     \<and> stopped s' = stopped s1"
  using assms
  by (auto simp: plot_seg_with_v_def split: if_splits option.splits Option.bind_splits
        dest!: execute_segment_fields)


lemma count_node_fields:
  "node_count (count_node cfg s) = node_count s + 1" "stopped (count_node cfg s) = stopped s"
  "xy_moves (commands (count_node cfg s)) = xy_moves (commands s)"
  by (simp_all add: count_node_def Let_def servo_setup_def pen_lower_def xy_moves_def is_xy_move_def)

lemma pre_stop_fields:
  assumes "read_button cfg inp (note_pause_request inp s) = Some (b, s1)"
  shows "node_count s1 = node_count s" "commands s1 = commands s" "node_target s1 = node_target s"
    "stopped s \<le> 0 \<Longrightarrow> stopped s1 \<le> 0"
  using assms
  by (auto simp: read_button_def note_pause_request_def split: if_splits option.splits)

lemma note_button_fields [simp]:
  "node_count (note_button b s) = node_count s" "commands (note_button b s) = commands s"
  "node_target (note_button b s) = node_target s"
  by (simp_all add: note_button_def)

lemma note_button_stopped: "stopped s \<le> 0 \<Longrightarrow> stopped (note_button b s) \<le> 0"
  by (simp add: note_button_def)

lemma skip_to_target_fields [simp]:
  "stopped (skip_to_target cfg s) = stopped s" "commands (skip_to_target cfg s) = commands s"
  by (simp_all add: skip_to_target_def)

lemma skip_to_target_node:
  "node_count (skip_to_target cfg s) = node_count s
   \<or> (stopped s \<noteq> 0 \<and> opt_mode cfg = ''res_plot'' \<and> node_count s < node_target s
      \<and> node_count (skip_to_target cfg s) = node_target s)"
  by (simp add: skip_to_target_def)

lemma stop_plot_fields:
  assumes "stop_plot s = Some s'"
  shows "node_count s' = node_count s" "stopped s' = - stopped s"
    "xy_moves (commands s') = xy_moves (commands s)"
  using assms by (auto simp: stop_plot_def Let_def split: option.splits prod.splits)

lemma pause_res_check_node:
  assumes "pause_res_check cfg inp s = Some s'"
  shows "node_count s \<le> node_count s'
     \<and> (stopped s' = 0 \<longrightarrow> node_count s' = node_count s + 1)
     \<and> (stopped s' \<noteq> 0 \<longrightarrow> node_count s' = node_count s
          \<or> (opt_mode cfg = ''res_plot'' \<and> node_count s < node_target s
             \<and> node_count s' = node_target s))"
proof (cases "stopped s > 0")
  case True
  with assms show ?thesis by (simp add: pause_res_check_def)
next
  case False
  then have le: "stopped s \<le> 0" by simp
  from assms False obtain b s1 where
    rb: "read_button cfg inp (note_pause_request inp s) = Some (b, s1)"
    and rest: "(if stopped (skip_to_target cfg (note_button b s1)) < 0
                then stop_plot (skip_to_target cfg (note_button b s1))
                else Some (count_node cfg (skip_to_target cfg (note_button b s1)))) = Some s'"
    by (auto simp: pause_res_check_def Let_def split: Option.bind_splits)
  define s2 where "s2 = skip_to_target cfg (note_button b s1)"
  have s2le: "stopped s2 \<le> 0"
    unfolding s2_def using pre_stop_fields(4)[OF rb le] by (simp add: note_button_stopped)
  have nc1: "node_count (note_button b s1) = node_count s" "node_target (note_button b s1) = node_target s"
    using pre_stop_fields[OF rb] by simp_all
  have nc2: "node_count s2 = node_count s
     \<or> (stopped s2 \<noteq> 0 \<and> opt_mode cfg = ''res_plot'' \<and> node_count s < node_target s \<and> node_count s2 = node_target s)"
    using skip_to_target_node[of cfg "note_button b s1"] unfolding s2_def nc1 by simp
  show ?thesis
  proof (cases "stopped s2 < 0")
    case True
    with rest have sp: "stop_plot s2 = Some s'" unfolding s2_def by simp
    from stop_plot_fields[OF sp] True nc2 show ?thesis
      by auto
  next
    case False
    with s2le have z: "stopped s2 = 0" by simp
    from rest False have "s' = count_node cfg s2" unfolding s2_def by simp
    with z nc2 show ?thesis by (auto simp: count_node_fields)
  qed
qed


subsection \<open>Evaluations on the sample plot\<close>

lemma sample_consult_running: "pause_res_check sample_cfg button_up sample_state = Some (sample_state\<lparr>node_count := 8\<rparr>)"
  by (simp add: pause_res_check_def read_button_def note_pause_request_def note_button_def
      skip_to_target_def count_node_def first_digit_def sample_cfg_def sample_state_def button_up_def Let_def)

lemma sample_consult_button: "pause_res_check sample_cfg button_down sample_state
   = Some (sample_state\<lparr>svg_node_count := 7, virtual_pen_up := True, pen_up := True, commands := [PenRaise], stopped := 102\<rparr>)"
  by (simp add: pause_res_check_def read_button_def note_pause_request_def note_button_def
      skip_to_target_def stop_plot_def pen_raise_def first_digit_def sample_cfg_def sample_state_def button_down_def Let_def)

text \<open>
  A request of \<open>1/10000\<close> inch from the origin is less than one step on both motors:
  the segment is skipped.
\<close>

lemma sample_substep_steps:
  "motor_steps 2032 (of_int 7378697629483821 * 2 powi (- 14 - 52)) 0 = Some (0, 0)"
proof -
  have d: "fl64 (of_int 7378697629483821 * 2 powi (- 14 - 52))
      = Some (of_int 7378697629483821 * 2 powi (- 14 - 52))"
    by (rule fl64_exact [of _ 7378697629483821 "- 14 - 52"]) simp_all
  have p: "fl64 (2032 * (of_int 7378697629483821 * 2 powi (- 14 - 52)))
      = Some (of_int 7321051554253479 * 2 powi (- 3 - 52))"
    by (rule fl64_eval) (simp_all add: py_round_def)
  have r: "py_round (of_int 7321051554253479 * 2 powi (- 3 - 52)) = 0"
    by (simp add: py_round_def)
  show ?thesis using d p r unfolding motor_steps_def by simp
qed

lemma sample_zero_delta: "rounded_delta 2032 (0, 0) = Some (0, 0)"
proof -
  have t: "fl64 (2 * 2032) = Some (2 * 2032)"
    using fl64_of_int [of 4064] by simp
  show ?thesis using t unfolding rounded_delta_def by (simp add: py_div_def)
qed

lemma sample_substep_segment: "plot_seg_with_v sample_cfg button_up (1 / 10000) 0 0 0 False sample_state = Some (sample_state\<lparr>node_count := 8\<rparr>)"
proof -
  have dx: "fl64 (1 / 10000) = Some (of_int 7378697629483821 * 2 powi (- 14 - 52))"
    by (rule fl64_eval) (simp_all add: py_round_def)
  have st: "stopped (sample_state\<lparr>node_count := 8\<rparr>) = 0"
    "f_curr (sample_state\<lparr>node_count := 8\<rparr>) = Some (0, 0)"
    by (simp_all add: sample_state_def)
  have cf: "self_step_scale sample_cfg = 2032" "x_bounds_min sample_cfg = 0"
    "x_bounds_max sample_cfg = 11" "y_bounds_min sample_cfg = 0" "y_bounds_max sample_cfg = 17 / 2"
    "par_bounds_tolerance sample_cfg = 3 / 1000"
    by (simp_all add: sample_cfg_def)
  have seg: "execute_segment sample_cfg (1 / 10000) 0 0 0 False (0, 0) (sample_state\<lparr>node_count := 8\<rparr>)
      = Some (init_acc, sample_state\<lparr>node_count := 8\<rparr>)"
    using dx sample_substep_steps sample_zero_delta
    unfolding execute_segment_def cf by (simp add: checkLimitsTol_def)
  show ?thesis
    unfolding plot_seg_with_v_def sample_consult_running by (simp add: st seg)
qed

subsection \<open>Node counting\<close>

text \<open>
  C5, as stated, fails: a consultation does not always add one to \<open>node_count\<close>. On
  the sample plot with \<open>node_count = 7\<close>, a consultation while the plot is already
  stopped (\<open>stopped = 102\<close>) returns at once with \<open>node_count = 7\<close>, and a
  consultation of the running plot that reads a pressed button stops the plot and
  returns before the increment, again with \<open>node_count = 7\<close>.
\<close>

theorem C5_node_count_counterexample:
  "node_count (sample_state\<lparr>stopped := 102\<rparr>) = 7
   \<and> map_option node_count (pause_res_check sample_cfg button_up (sample_state\<lparr>stopped := 102\<rparr>)) = Some 7
   \<and> node_count sample_state = 7
   \<and> map_option node_count (pause_res_check sample_cfg button_down sample_state) = Some 7"
  by (simp add: sample_consult_button) (simp add: pause_res_check_def sample_state_def)

subsection \<open>Pause ordering\<close>

lemma pause_res_check_xy:
  assumes "pause_res_check cfg inp s = Some s'"
  shows "xy_moves (commands s') = xy_moves (commands s)"
proof (cases "stopped s > 0")
  case True
  with assms show ?thesis by (simp add: pause_res_check_def)
next
  case False
  from assms False obtain b s1 where
    rb: "read_button cfg inp (note_pause_request inp s) = Some (b, s1)"
    and rest: "(if stopped (skip_to_target cfg (note_button b s1)) < 0
                then stop_plot (skip_to_target cfg (note_button b s1))
                else Some (count_node cfg (skip_to_target cfg (note_button b s1)))) = Some s'"
    by (auto simp: pause_res_check_def Let_def split: Option.bind_splits)
  have c: "commands s1 = commands s"
    using pre_stop_fields(2)[OF rb] by simp
  from rest show ?thesis
    by (auto simp: c count_node_fields split: if_splits dest!: stop_plot_fields(3))
qed

lemma plot_segments_stopped:
  assumes "0 < stopped s"
  shows "plot_segments cfg inps pts vs s = Some s
       \<or> plot_segments cfg inps pts vs s = Some (s\<lparr>copies_to_plot := 0\<rparr>)
       \<or> (f_curr s = None \<and> plot_segments cfg inps pts vs s = None)"
  using assms
proof (induction cfg inps pts vs s rule: plot_segments.induct)
  case (1 cfg inp inps pt pts v0 v1 vs s)
  show ?case
  proof (cases "f_curr s")
    case None
    then have "plot_seg_with_v cfg inp (fst pt) (snd pt) v0 v1 False s = None"
      using "1.prems" by (simp add: plot_seg_with_v_def pause_res_check_def)
    with None show ?thesis by simp
  next
    case (Some cur)
    then have step: "plot_seg_with_v cfg inp (fst pt) (snd pt) v0 v1 False s
        = Some (s\<lparr>copies_to_plot := 0\<rparr>)"
      using "1.prems" by (simp add: plot_seg_with_v_def pause_res_check_def)
    have "0 < stopped (s\<lparr>copies_to_plot := 0\<rparr>)" using "1.prems" by simp
    from "1.IH"[OF step this] Some show ?thesis by (auto simp: step)
  qed
qed simp_all

text \<open>
  C4: once \<open>stopped\<close> is positive no timed XY move is emitted. With \<open>stopped > 0\<close>
  the pause check returns at once with the state unchanged; \<open>plot_seg_with_v\<close> returns
  on entry having only cleared \<open>copies_to_plot\<close> (while the position is unknown it
  raises instead, when it formats the position for the debug text: it sends nothing
  either way); \<open>plan_trajectory\<close> returns at once; a run of segment calls that returns
  leaves the command stream and \<open>stopped\<close> as they were, and it does return when the
  position is known. Inside the emission loop a pass sends nothing unless
  \<open>stopped = 0\<close>; and the call of \<open>plot_seg_with_v\<close> in which the plot becomes
  stopped adds no XY move to the stream.
\<close>

theorem C4_no_moves_once_stopped:
  "(0 < stopped s \<longrightarrow>
       pause_res_check cfg inp s = Some s
     \<and> plot_seg_with_v cfg inp x y vi vf il s
         = (if f_curr s = None then None else Some (s\<lparr>copies_to_plot := 0\<rparr>))
     \<and> plan_trajectory cfg inps path s = Some s
     \<and> (plot_segments cfg inps pts vs s = Some s3
          \<longrightarrow> commands s3 = commands s \<and> stopped s3 = stopped s)
     \<and> (f_curr s \<noteq> None \<longrightarrow> (\<exists>s'. plot_segments cfg inps pts vs s = Some s')))
   \<and> (execute_move cfg m1 m2 t s = Some s1 \<longrightarrow> stopped s \<noteq> 0 \<longrightarrow> commands s1 = commands s)
   \<and> (plot_seg_with_v cfg inp x y vi vf il s = Some s2 \<longrightarrow> stopped s2 \<noteq> 0
        \<longrightarrow> xy_moves (commands s2) = xy_moves (commands s))"
proof (intro conjI impI)
  assume st: "0 < stopped s"
  show "pause_res_check cfg inp s = Some s"
    using st by (simp add: pause_res_check_def)
  show "plot_seg_with_v cfg inp x y vi vf il s
         = (if f_curr s = None then None else Some (s\<lparr>copies_to_plot := 0\<rparr>))"
    using st by (auto simp: plot_seg_with_v_def pause_res_check_def)
  show "plan_trajectory cfg inps path s = Some s"
    using st by (simp add: plan_trajectory_def)
  {
    assume "plot_segments cfg inps pts vs s = Some s3"
    with plot_segments_stopped[OF st, of cfg inps pts vs]
    show "commands s3 = commands s" and "stopped s3 = stopped s" by auto
  }
  {
    assume "f_curr s \<noteq> None"
    with plot_segments_stopped[OF st, of cfg inps pts vs]
    show "\<exists>s'. plot_segments cfg inps pts vs s = Some s'" by auto
  }
next
  assume "execute_move cfg m1 m2 t s = Some s1" and "stopped s \<noteq> 0"
  then show "commands s1 = commands s"
    using execute_move_stopped by blast
next
  assume run: "plot_seg_with_v cfg inp x y vi vf il s = Some s2" and st: "stopped s2 \<noteq> 0"
  from run obtain s1 where pc: "pause_res_check cfg inp s = Some s1"
    and body: "(case f_curr s1 of None \<Rightarrow> None
            | Some cur \<Rightarrow> if stopped s1 \<noteq> 0 then Some (s1\<lparr>copies_to_plot := 0\<rparr>)
                else map_option snd (execute_segment cfg x y vi vf il cur s1)) = Some s2"
    by (auto simp: plot_seg_with_v_def split: Option.bind_splits)
  from plot_seg_node[OF run] pc have "stopped s2 = stopped s1" by auto
  with st have "stopped s1 \<noteq> 0" by simp
  with body have "s2 = s1\<lparr>copies_to_plot := 0\<rparr>" by (auto split: option.splits)
  with pause_res_check_xy[OF pc] show "xy_moves (commands s2) = xy_moves (commands s)" by simp
qed

theorem C4_no_moves_once_stopped_witness:
  "0 < stopped (sample_state\<lparr>stopped := 102\<rparr>)
   \<and> f_curr (sample_state\<lparr>stopped := 102\<rparr>) = Some (0, 0)
   \<and> pause_res_check sample_cfg button_up (sample_state\<lparr>stopped := 102\<rparr>)
       = Some (sample_state\<lparr>stopped := 102\<rparr>)
   \<and> plot_seg_with_v sample_cfg button_up 1 0 0 0 False (sample_state\<lparr>stopped := 102\<rparr>)
       = Some (sample_state\<lparr>stopped := 102, copies_to_plot := 0\<rparr>)
   \<and> plan_trajectory sample_cfg [button_up] [(0, 0), (1, 0)] (sample_state\<lparr>stopped := 102\<rparr>)
       = Some (sample_state\<lparr>stopped := 102\<rparr>)
   \<and> plot_seg_with_v sample_cfg button_up 1 0 0 0 False
        (sample_state\<lparr>stopped := 102, f_curr := None\<rparr>) = None"
proof -
  have st: "0 < stopped (sample_state\<lparr>stopped := 102\<rparr>)"
    "0 < stopped (sample_state\<lparr>stopped := 102, f_curr := None\<rparr>)" by simp_all
  have fc: "f_curr (sample_state\<lparr>stopped := 102\<rparr>) = Some (0, 0)"
    "f_curr (sample_state\<lparr>stopped := 102, f_curr := None\<rparr>) = None"
    by (simp_all add: sample_state_def)
  from C4_no_moves_once_stopped
    [of "sample_state\<lparr>stopped := 102\<rparr>" sample_cfg button_up 1 0 0 0 False
        "[button_up]" "[(0, 0), (1, 0)]"]
    C4_no_moves_once_stopped
    [of "sample_state\<lparr>stopped := 102, f_curr := None\<rparr>" sample_cfg button_up 1 0 0 0 False]
    st fc show ?thesis by simp
qed

text \<open>
  C5 (amended): a consultation of the pause check, and likewise a call of
  \<open>plot_seg_with_v\<close> (which consults it once), never decreases \<open>node_count\<close>; it
  adds exactly one when it leaves the plot running (\<open>stopped = 0\<close>, whether the
  segment is then executed or skipped); when the plot is or becomes stopped it leaves
  \<open>node_count\<close> unchanged, except that a stop in mode \<open>res_plot\<close> before the
  resume target is reached moves \<open>node_count\<close> up to \<open>node_target\<close>.
\<close>

theorem C5_node_count_per_consultation:
  "(pause_res_check cfg inp s = Some s' \<longrightarrow>
      node_count s \<le> node_count s'
      \<and> (stopped s' = 0 \<longrightarrow> node_count s' = node_count s + 1)
      \<and> (stopped s' \<noteq> 0 \<longrightarrow> node_count s' = node_count s
           \<or> (opt_mode cfg = ''res_plot'' \<and> node_count s < node_target s
              \<and> node_count s' = node_target s)))
   \<and> (plot_seg_with_v cfg inp x y vi vf il s = Some s'' \<longrightarrow>
      node_count s \<le> node_count s''
      \<and> (stopped s'' = 0 \<longrightarrow> node_count s'' = node_count s + 1)
      \<and> (stopped s'' \<noteq> 0 \<longrightarrow> node_count s'' = node_count s
           \<or> (opt_mode cfg = ''res_plot'' \<and> node_count s < node_target s
              \<and> node_count s'' = node_target s)))"
proof (rule conjI; rule impI)
  assume "pause_res_check cfg inp s = Some s'"
  then show "node_count s \<le> node_count s'
      \<and> (stopped s' = 0 \<longrightarrow> node_count s' = node_count s + 1)
      \<and> (stopped s' \<noteq> 0 \<longrightarrow> node_count s' = node_count s
           \<or> (opt_mode cfg = ''res_plot'' \<and> node_count s < node_target s
              \<and> node_count s' = node_target s))"
    by (rule pause_res_check_node)
next
  assume "plot_seg_with_v cfg inp x y vi vf il s = Some s''"
  from plot_seg_node[OF this] obtain s1 where
    pc: "pause_res_check cfg inp s = Some s1" and eq: "node_count s'' = node_count s1"
      "stopped s'' = stopped s1" by auto
  from pause_res_check_node[OF pc]
  show "node_count s \<le> node_count s''
      \<and> (stopped s'' = 0 \<longrightarrow> node_count s'' = node_count s + 1)
      \<and> (stopped s'' \<noteq> 0 \<longrightarrow> node_count s'' = node_count s
           \<or> (opt_mode cfg = ''res_plot'' \<and> node_count s < node_target s
              \<and> node_count s'' = node_target s))"
    unfolding eq .
qed

theorem C5_node_count_per_consultation_witness:
  "pause_res_check sample_cfg button_up sample_state = Some (sample_state\<lparr>node_count := 8\<rparr>)
   \<and> stopped (sample_state\<lparr>node_count := 8\<rparr>) = 0
   \<and> node_count (sample_state\<lparr>node_count := 8\<rparr>) = node_count sample_state + 1
   \<and> plot_seg_with_v sample_cfg button_up (1 / 10000) 0 0 0 False sample_state
        = Some (sample_state\<lparr>node_count := 8\<rparr>)"
proof -
  have z: "stopped (sample_state\<lparr>node_count := 8\<rparr>) = 0" by (simp add: sample_state_def)
  from C5_node_count_per_consultation
    [of sample_cfg button_up sample_state "sample_state\<lparr>node_count := 8\<rparr>"
        "1 / 10000" 0 0 0 False "sample_state\<lparr>node_count := 8\<rparr>"]
    sample_consult_running sample_substep_segment z show ?thesis by simp
qed

subsection \<open>Emission loop: the overspeed loop and the emitted commands\<close>

lemma extend_time_Some:
  "extend_time msr m1 m2 t0 = Some t \<Longrightarrow>
     t0 \<le> t \<and> t \<noteq> 0 \<and> \<bar>of_int m1 / of_int t\<bar> < msr \<and> \<bar>of_int m2 / of_int t\<bar> < msr"
proof (induction msr m1 m2 t0 rule: extend_time.induct)
  case (1 msr m1 m2 t0)
  note unf = extend_time.simps [of msr m1 m2 t0]
  show ?case
  proof (cases "t0 = 0")
    case True
    with "1.prems" unf show ?thesis by simp
  next
    case nz: False
    show ?thesis
    proof (cases "\<bar>of_int m1 / of_int t0\<bar> \<ge> msr \<or> \<bar>of_int m2 / of_int t0\<bar> \<ge> msr")
      case over: True
      show ?thesis
      proof (cases "msr \<le> 0")
        case True
        with nz over unf have "extend_time msr m1 m2 t0 = None" by presburger
        with "1.prems" show ?thesis by simp
      next
        case False
        with nz over unf have "extend_time msr m1 m2 t0 = extend_time msr m1 m2 (t0 + 1)"
          by presburger
        with "1.prems" have "extend_time msr m1 m2 (t0 + 1) = Some t" by simp
        from "1.IH" [OF nz over False this] show ?thesis by simp
      qed
    next
      case False
      with nz unf have "extend_time msr m1 m2 t0 = Some t0" by presburger
      with "1.prems" have "t = t0" by simp
      with False nz show ?thesis by auto
    qed
  qed
qed


lemma extend_time_least:
  "extend_time msr m1 m2 t0 = Some t \<Longrightarrow> t0 \<le> t' \<Longrightarrow> t' < t \<Longrightarrow>
     msr \<le> \<bar>of_int m1 / of_int t'\<bar> \<or> msr \<le> \<bar>of_int m2 / of_int t'\<bar>"
proof (induction msr m1 m2 t0 rule: extend_time.induct)
  case (1 msr m1 m2 t0)
  note unf = extend_time.simps [of msr m1 m2 t0]
  show ?case
  proof (cases "t0 = 0")
    case True
    with "1.prems" unf show ?thesis by simp
  next
    case nz: False
    show ?thesis
    proof (cases "\<bar>of_int m1 / of_int t0\<bar> \<ge> msr \<or> \<bar>of_int m2 / of_int t0\<bar> \<ge> msr")
      case over: True
      show ?thesis
      proof (cases "msr \<le> 0")
        case True
        with nz over unf have "extend_time msr m1 m2 t0 = None" by presburger
        with "1.prems" show ?thesis by simp
      next
        case False
        with nz over unf have "extend_time msr m1 m2 t0 = extend_time msr m1 m2 (t0 + 1)"
          by presburger
        with "1.prems" have nxt: "extend_time msr m1 m2 (t0 + 1) = Some t" by simp
        show ?thesis
        proof (cases "t' = t0")
          case True
          with over show ?thesis by simp
        next
          case False
          with "1.prems"(2) have "t0 + 1 \<le> t'" by simp
          from "1.IH" [OF nz over \<open>\<not> msr \<le> 0\<close> nxt this "1.prems"(3)] show ?thesis .
        qed
      qed
    next
      case False
      with nz unf have "extend_time msr m1 m2 t0 = Some t0" by presburger
      with "1.prems" show ?thesis by simp
    qed
  qed
qed

lemma interval_move_Some:
  assumes "interval_move msr r1 r2 rt = Some (m1, m2, t)"
  shows "1 \<le> t \<and> max rt 1 \<le> t \<and> \<bar>of_int m1 / of_int t\<bar> < msr \<and> \<bar>of_int m2 / of_int t\<bar> < msr
     \<and> m1 = (if \<bar>of_int r1 / of_int (max rt 1)\<bar> < (0.002 :: real) then 0 else r1)
     \<and> m2 = (if \<bar>of_int r2 / of_int (max rt 1)\<bar> < (0.002 :: real) then 0 else r2)
     \<and> (\<forall>t'. max rt 1 \<le> t' \<and> t' < t
           \<longrightarrow> msr \<le> \<bar>of_int m1 / of_int t'\<bar> \<or> msr \<le> \<bar>of_int m2 / of_int t'\<bar>)"
proof -
  from assms have et: "extend_time msr m1 m2 (max rt 1) = Some t"
    and m1: "m1 = (if \<bar>of_int r1 / of_int (max rt 1)\<bar> < (0.002 :: real) then 0 else r1)"
    and m2: "m2 = (if \<bar>of_int r2 / of_int (max rt 1)\<bar> < (0.002 :: real) then 0 else r2)"
    by (auto simp: interval_move_def Let_def)
  from extend_time_Some[OF et] have "max rt 1 \<le> t" "\<bar>of_int m1 / of_int t\<bar> < msr"
    "\<bar>of_int m2 / of_int t\<bar> < msr" by blast+
  moreover from this(1) have "1 \<le> t" by simp
  moreover have "\<forall>t'. max rt 1 \<le> t' \<and> t' < t
           \<longrightarrow> msr \<le> \<bar>of_int m1 / of_int t'\<bar> \<or> msr \<le> \<bar>of_int m2 / of_int t'\<bar>"
    using extend_time_least[OF et] by blast
  ultimately show ?thesis using m1 m2 by blast
qed

lemma interval_move_zeroed:
  assumes "interval_move msr r1 r2 rt = Some (m1, m2, t)"
  shows "(m1 = r1 \<or> m1 = 0 \<and> \<bar>of_int r1 / of_int (max rt 1)\<bar> < (0.002 :: real))
     \<and> (m2 = r2 \<or> m2 = 0 \<and> \<bar>of_int r2 / of_int (max rt 1)\<bar> < (0.002 :: real))"
proof -
  from interval_move_Some[OF assms]
  have m1: "m1 = (if \<bar>of_int r1 / of_int (max rt 1)\<bar> < (0.002 :: real) then 0 else r1)"
    and m2: "m2 = (if \<bar>of_int r2 / of_int (max rt 1)\<bar> < (0.002 :: real) then 0 else r2)"
    by blast+
  have "m1 = r1 \<or> m1 = 0 \<and> \<bar>of_int r1 / of_int (max rt 1)\<bar> < (0.002 :: real)"
    unfolding m1 by simp
  moreover have "m2 = r2 \<or> m2 = 0 \<and> \<bar>of_int r2 / of_int (max rt 1)\<bar> < (0.002 :: real)"
    unfolding m2 by simp
  ultimately show ?thesis by blast
qed




subsection \<open>Emission loop: the step counters\<close>

lemma emit_moves_append:
  "emit_moves cfg (ts1 @ ts2) acc s =
     (case emit_moves cfg ts1 acc s of None \<Rightarrow> None
      | Some (acc1, s1) \<Rightarrow> emit_moves cfg ts2 acc1 s1)"
proof (induction ts1 arbitrary: acc s)
  case Nil
  then show ?case by simp
next
  case (Cons a ts1)
  obtain d1 d2 du where a: "a = ((d1, d2), du)" by (cases a) auto
  show ?case unfolding a
    by (simp add: Cons.IH Let_def split: Option.bind_split prod.split option.split)
qed

lemma emit_moves_single:
  assumes "emit_moves cfg [((d1, d2), du)] acc s = Some (acc', s')"
  shows "\<exists>m1 m2 t.
       interval_move (par_max_step_rate cfg) (d1 - prev_motor1 acc) (d2 - prev_motor2 acc)
          (du - prev_time acc) = Some (m1, m2, t)
     \<and> execute_move cfg m1 m2 t s = Some s'
     \<and> acc' = \<lparr>prev_motor1 = prev_motor1 acc + m1, prev_motor2 = prev_motor2 acc + m2,
               prev_time = du\<rparr>"
  using assms by (auto simp: Let_def split: Option.bind_splits)

lemma execute_move_emitted:
  assumes "execute_move cfg m1 m2 t s = Some s'" and "\<not> opt_preview cfg"
    and "\<not> resume_mode s" and "stopped s = 0"
  shows "commands s' = commands s @ (if m1 \<noteq> 0 \<or> m2 \<noteq> 0 then [XYMove m2 m1 t] else [])"
proof (cases "m1 \<noteq> 0 \<or> m2 \<noteq> 0")
  case True
  with assms have "commands s' = commands s @ [XYMove m2 m1 t]"
    by (auto simp: execute_move_def Let_def bind_eq_Some_conv split: if_splits option.splits prod.splits)
  with True show ?thesis by simp
next
  case False
  with assms(1) have "s' = s" by (simp add: execute_move_def)
  with False show ?thesis by simp
qed

lemma emit_moves_emitted:
  assumes "emit_moves cfg ts acc s = Some (acc', s')" and "\<not> opt_preview cfg"
    and "\<not> resume_mode s" and "stopped s = 0"
  shows "\<exists>new. commands s' = commands s @ new
     \<and> sum_list (map steps1_of new) = prev_motor1 acc' - prev_motor1 acc
     \<and> sum_list (map steps2_of new) = prev_motor2 acc' - prev_motor2 acc"
  using assms
proof (induction ts arbitrary: acc s)
  case Nil
  then show ?case by simp
next
  case (Cons a ts)
  obtain d1 d2 du where a: "a = ((d1, d2), du)" by (cases a) auto
  from Cons.prems(1) obtain m1 m2 t s1 where
    em: "execute_move cfg m1 m2 t s = Some s1" and
    rest: "emit_moves cfg ts \<lparr>prev_motor1 = prev_motor1 acc + m1, prev_motor2 = prev_motor2 acc + m2,
             prev_time = du\<rparr> s1 = Some (acc', s')"
    unfolding a by (auto simp: Let_def split: Option.bind_splits)
  from execute_move_fields[OF em] Cons.prems(3,4)
  have st: "\<not> resume_mode s1" "stopped s1 = 0" by simp_all
  define n1 where "n1 = (if m1 \<noteq> 0 \<or> m2 \<noteq> 0 then [XYMove m2 m1 t] else [])"
  have n1: "commands s1 = commands s @ n1"
    using execute_move_emitted[OF em Cons.prems(2,3,4)] unfolding n1_def .
  have n1s: "sum_list (map steps1_of n1) = m1" "sum_list (map steps2_of n1) = m2"
    unfolding n1_def by (auto simp: steps1_of_def steps2_of_def)
  from Cons.IH[OF rest Cons.prems(2) st] obtain n2 where
    n2: "commands s' = commands s1 @ n2"
      "sum_list (map steps1_of n2) = prev_motor1 acc' - (prev_motor1 acc + m1)"
      "sum_list (map steps2_of n2) = prev_motor2 acc' - (prev_motor2 acc + m2)" by auto
  show ?case using n1 n1s n2 by (intro exI[of _ "n1 @ n2"]) simp
qed

lemma emit_moves_last:
  assumes "emit_moves cfg (ts @ [((d1, d2), du)]) acc s = Some (acc', s')"
  shows "\<exists>r1 r2 t. prev_motor1 acc' = d1 - r1 \<and> prev_motor2 acc' = d2 - r2 \<and> (1::int) \<le> t
     \<and> (r1 = 0 \<or> \<bar>of_int r1 / of_int t\<bar> < (0.002 :: real))
     \<and> (r2 = 0 \<or> \<bar>of_int r2 / of_int t\<bar> < (0.002 :: real))"
proof -
  from assms obtain acc1 s1 where
    last: "emit_moves cfg [((d1, d2), du)] acc1 s1 = Some (acc', s')"
    by (auto simp: emit_moves_append split: option.splits)
  from emit_moves_single[OF last] obtain m1 m2 t0 where
    im: "interval_move (par_max_step_rate cfg) (d1 - prev_motor1 acc1) (d2 - prev_motor2 acc1)
          (du - prev_time acc1) = Some (m1, m2, t0)"
    and acc': "acc' = \<lparr>prev_motor1 = prev_motor1 acc1 + m1, prev_motor2 = prev_motor2 acc1 + m2,
               prev_time = du\<rparr>"
    by blast
  from acc' have q1: "prev_motor1 acc' = prev_motor1 acc1 + m1"
    and q2: "prev_motor2 acc' = prev_motor2 acc1 + m2" by simp_all
  from interval_move_zeroed[OF im] have
    z1: "m1 = d1 - prev_motor1 acc1
         \<or> m1 = 0 \<and> \<bar>of_int (d1 - prev_motor1 acc1) / of_int (max (du - prev_time acc1) 1)\<bar> < (0.002 :: real)"
    and z2: "m2 = d2 - prev_motor2 acc1
         \<or> m2 = 0 \<and> \<bar>of_int (d2 - prev_motor2 acc1) / of_int (max (du - prev_time acc1) 1)\<bar> < (0.002 :: real)"
    by blast+
  define t where "t = max (du - prev_time acc1) 1"
  have t1: "1 \<le> t" by (simp add: t_def)
  have r1: "d1 - prev_motor1 acc' = 0 \<or> \<bar>of_int (d1 - prev_motor1 acc') / of_int t\<bar> < (0.002 :: real)"
    using z1 q1 unfolding t_def by auto
  have r2: "d2 - prev_motor2 acc' = 0 \<or> \<bar>of_int (d2 - prev_motor2 acc') / of_int t\<bar> < (0.002 :: real)"
    using z2 q2 unfolding t_def by auto
  show ?thesis
    using r1 r2 t1
    by (intro exI[of _ "d1 - prev_motor1 acc'"] exI[of _ "d2 - prev_motor2 acc'"] exI[of _ t]) simp
qed

text \<open>
  C9: in the emission loop started from zero counters, every pass takes as raw deltas
  its targets minus \<open>prev_motor1\<close> and \<open>prev_motor2\<close>, zeroes an axis exactly when
  that raw delta over the pass's duration (at least 1 ms) is below \<open>0.002\<close> steps per
  millisecond, hands the resulting deltas to the move, and adds them, and nothing else,
  to the counters. When moves are sent (no preview, no resume mode, plot running) the
  counters before and after the pass are the sums of the steps in the commands sent so
  far, the pass sending one \<open>doXYMove\<close> with its deltas unless both are zero. Steps
  zeroed in a pass are therefore not counted, and they are part of the raw delta of the
  next pass.
\<close>

theorem C9_cumulative_steps:
  "emit_moves cfg (ts1 @ [((d1, d2), du)]) init_acc s = Some (acc', s') \<longrightarrow>
     (\<exists>acc1 s1 m1 m2 t.
        emit_moves cfg ts1 init_acc s = Some (acc1, s1)
      \<and> interval_move (par_max_step_rate cfg) (d1 - prev_motor1 acc1) (d2 - prev_motor2 acc1)
          (du - prev_time acc1) = Some (m1, m2, t)
      \<and> m1 = (if \<bar>of_int (d1 - prev_motor1 acc1) / of_int (max (du - prev_time acc1) 1)\<bar>
                  < (0.002 :: real) then 0 else d1 - prev_motor1 acc1)
      \<and> m2 = (if \<bar>of_int (d2 - prev_motor2 acc1) / of_int (max (du - prev_time acc1) 1)\<bar>
                  < (0.002 :: real) then 0 else d2 - prev_motor2 acc1)
      \<and> execute_move cfg m1 m2 t s1 = Some s'
      \<and> prev_motor1 acc' = prev_motor1 acc1 + m1
      \<and> prev_motor2 acc' = prev_motor2 acc1 + m2
      \<and> (\<not> opt_preview cfg \<and> \<not> resume_mode s \<and> stopped s = 0 \<longrightarrow>
           (\<exists>sent. commands s1 = commands s @ sent
              \<and> commands s' = commands s @ sent
                   @ (if m1 \<noteq> 0 \<or> m2 \<noteq> 0 then [XYMove m2 m1 t] else [])
              \<and> prev_motor1 acc1 = sum_list (map steps1_of sent)
              \<and> prev_motor2 acc1 = sum_list (map steps2_of sent)
              \<and> prev_motor1 acc' = sum_list (map steps1_of sent) + m1
              \<and> prev_motor2 acc' = sum_list (map steps2_of sent) + m2)))"
proof
  assume run: "emit_moves cfg (ts1 @ [((d1, d2), du)]) init_acc s = Some (acc', s')"
  then obtain acc1 s1 where
    first: "emit_moves cfg ts1 init_acc s = Some (acc1, s1)" and
    last: "emit_moves cfg [((d1, d2), du)] acc1 s1 = Some (acc', s')"
    by (auto simp: emit_moves_append split: option.splits)
  from emit_moves_single[OF last] obtain m1 m2 t where
    im: "interval_move (par_max_step_rate cfg) (d1 - prev_motor1 acc1) (d2 - prev_motor2 acc1)
          (du - prev_time acc1) = Some (m1, m2, t)"
    and em: "execute_move cfg m1 m2 t s1 = Some s'"
    and acc': "acc' = \<lparr>prev_motor1 = prev_motor1 acc1 + m1, prev_motor2 = prev_motor2 acc1 + m2,
               prev_time = du\<rparr>"
    by blast
  from acc' have q1: "prev_motor1 acc' = prev_motor1 acc1 + m1"
    and q2: "prev_motor2 acc' = prev_motor2 acc1 + m2" by simp_all
  from interval_move_Some[OF im] have
    z1: "m1 = (if \<bar>of_int (d1 - prev_motor1 acc1) / of_int (max (du - prev_time acc1) 1)\<bar>
                  < (0.002 :: real) then 0 else d1 - prev_motor1 acc1)"
    and z2: "m2 = (if \<bar>of_int (d2 - prev_motor2 acc1) / of_int (max (du - prev_time acc1) 1)\<bar>
                  < (0.002 :: real) then 0 else d2 - prev_motor2 acc1)"
    by blast+
  have sent: "\<not> opt_preview cfg \<and> \<not> resume_mode s \<and> stopped s = 0 \<longrightarrow>
           (\<exists>sent. commands s1 = commands s @ sent
              \<and> commands s' = commands s @ sent
                   @ (if m1 \<noteq> 0 \<or> m2 \<noteq> 0 then [XYMove m2 m1 t] else [])
              \<and> prev_motor1 acc1 = sum_list (map steps1_of sent)
              \<and> prev_motor2 acc1 = sum_list (map steps2_of sent)
              \<and> prev_motor1 acc' = sum_list (map steps1_of sent) + m1
              \<and> prev_motor2 acc' = sum_list (map steps2_of sent) + m2)"
  proof
    assume mode: "\<not> opt_preview cfg \<and> \<not> resume_mode s \<and> stopped s = 0"
    from emit_moves_emitted[OF first] mode obtain sent where
      c1: "commands s1 = commands s @ sent"
      and p1: "sum_list (map steps1_of sent) = prev_motor1 acc1 - prev_motor1 init_acc"
      and p2: "sum_list (map steps2_of sent) = prev_motor2 acc1 - prev_motor2 init_acc"
      by blast
    from emit_moves_fields[OF first] mode have st: "\<not> resume_mode s1" "stopped s1 = 0"
      by simp_all
    from execute_move_emitted[OF em _ st] mode c1
    have c2: "commands s' = commands s @ sent
                   @ (if m1 \<noteq> 0 \<or> m2 \<noteq> 0 then [XYMove m2 m1 t] else [])" by simp
    from p1 p2 have "prev_motor1 acc1 = sum_list (map steps1_of sent)"
      "prev_motor2 acc1 = sum_list (map steps2_of sent)" by (simp_all add: init_acc_def)
    with c1 c2 q1 q2 show "\<exists>sent. commands s1 = commands s @ sent
              \<and> commands s' = commands s @ sent
                   @ (if m1 \<noteq> 0 \<or> m2 \<noteq> 0 then [XYMove m2 m1 t] else [])
              \<and> prev_motor1 acc1 = sum_list (map steps1_of sent)
              \<and> prev_motor2 acc1 = sum_list (map steps2_of sent)
              \<and> prev_motor1 acc' = sum_list (map steps1_of sent) + m1
              \<and> prev_motor2 acc' = sum_list (map steps2_of sent) + m2"
      by (intro exI[of _ sent]) simp
  qed
  show "\<exists>acc1 s1 m1 m2 t.
        emit_moves cfg ts1 init_acc s = Some (acc1, s1)
      \<and> interval_move (par_max_step_rate cfg) (d1 - prev_motor1 acc1) (d2 - prev_motor2 acc1)
          (du - prev_time acc1) = Some (m1, m2, t)
      \<and> m1 = (if \<bar>of_int (d1 - prev_motor1 acc1) / of_int (max (du - prev_time acc1) 1)\<bar>
                  < (0.002 :: real) then 0 else d1 - prev_motor1 acc1)
      \<and> m2 = (if \<bar>of_int (d2 - prev_motor2 acc1) / of_int (max (du - prev_time acc1) 1)\<bar>
                  < (0.002 :: real) then 0 else d2 - prev_motor2 acc1)
      \<and> execute_move cfg m1 m2 t s1 = Some s'
      \<and> prev_motor1 acc' = prev_motor1 acc1 + m1
      \<and> prev_motor2 acc' = prev_motor2 acc1 + m2
      \<and> (\<not> opt_preview cfg \<and> \<not> resume_mode s \<and> stopped s = 0 \<longrightarrow>
           (\<exists>sent. commands s1 = commands s @ sent
              \<and> commands s' = commands s @ sent
                   @ (if m1 \<noteq> 0 \<or> m2 \<noteq> 0 then [XYMove m2 m1 t] else [])
              \<and> prev_motor1 acc1 = sum_list (map steps1_of sent)
              \<and> prev_motor2 acc1 = sum_list (map steps2_of sent)
              \<and> prev_motor1 acc' = sum_list (map steps1_of sent) + m1
              \<and> prev_motor2 acc' = sum_list (map steps2_of sent) + m2))"
    using first im z1 z2 em q1 q2 sent
    by (intro exI[of _ acc1] exI[of _ s1] exI[of _ m1] exI[of _ m2] exI[of _ t] conjI)
qed

subsection \<open>A sample segment, evaluated\<close>












text \<open>
  Two passes of the emission loop on the sample plot, with targets \<open>(100, 1)\<close> at
  \<open>1000\<close> ms and \<open>(200, 2)\<close> at \<open>2000\<close> ms: the first pass withholds the single step
  of motor 2 (\<open>1/1000 < 0.002\<close>), the second applies two steps (\<open>2/1000\<close> is not below
  \<open>0.002\<close>).
\<close>

lemma sample_pass1:
  "emit_moves sample_cfg [((100, 1), 1000)] init_acc sample_state
   = Some (\<lparr>prev_motor1 = 100, prev_motor2 = 0, prev_time = 1000\<rparr>,
           sample_state\<lparr>commands := [XYMove 0 100 1000],
              f_curr := Some (25 / 1016, 25 / 1016),
              svg_last_known_pos_x := 25 / 1016, svg_last_known_pos_y := 25 / 1016\<rparr>)"
proof -
  have im: "interval_move (par_max_step_rate sample_cfg) (100 - prev_motor1 init_acc)
     (1 - prev_motor2 init_acc) (1000 - prev_time init_acc) = Some (100, 0, 1000)"
    by (simp add: init_acc_def sample_cfg_def interval_move_def Let_def
        extend_time.simps [of _ 100 0 1000])
  have ex: "execute_move sample_cfg 100 0 1000 sample_state
    = Some (sample_state\<lparr>commands := [XYMove 0 100 1000],
              f_curr := Some (25 / 1016, 25 / 1016),
              svg_last_known_pos_x := 25 / 1016, svg_last_known_pos_y := 25 / 1016\<rparr>)"
    by (simp add: execute_move_def py_div_def Let_def sample_state_def sample_cfg_def)
  show ?thesis
    unfolding emit_moves.simps im by (simp add: ex init_acc_def)
qed

lemma sample_pass2:
  "emit_moves sample_cfg [((200, 2), 2000)] \<lparr>prev_motor1 = 100, prev_motor2 = 0, prev_time = 1000\<rparr>
     (sample_state\<lparr>commands := [XYMove 0 100 1000],
              f_curr := Some (25 / 1016, 25 / 1016),
              svg_last_known_pos_x := 25 / 1016, svg_last_known_pos_y := 25 / 1016\<rparr>)
   = Some (\<lparr>prev_motor1 = 200, prev_motor2 = 2, prev_time = 2000\<rparr>,
           sample_state\<lparr>commands := [XYMove 0 100 1000, XYMove 2 100 1000],
              f_curr := Some (101 / 2032, 99 / 2032),
              svg_last_known_pos_x := 101 / 2032, svg_last_known_pos_y := 99 / 2032\<rparr>)"
proof -
  have im: "interval_move (par_max_step_rate sample_cfg)
     (200 - prev_motor1 \<lparr>prev_motor1 = 100, prev_motor2 = 0, prev_time = 1000\<rparr>)
     (2 - prev_motor2 \<lparr>prev_motor1 = 100, prev_motor2 = 0, prev_time = 1000\<rparr>)
     (2000 - prev_time \<lparr>prev_motor1 = 100, prev_motor2 = 0, prev_time = 1000\<rparr>)
     = Some (100, 2, 1000)"
    by (simp add: sample_cfg_def interval_move_def Let_def extend_time.simps [of _ 100 2 1000])
  have ex: "execute_move sample_cfg 100 2 1000
      (sample_state\<lparr>commands := [XYMove 0 100 1000],
              f_curr := Some (25 / 1016, 25 / 1016),
              svg_last_known_pos_x := 25 / 1016, svg_last_known_pos_y := 25 / 1016\<rparr>)
    = Some (sample_state\<lparr>commands := [XYMove 0 100 1000, XYMove 2 100 1000],
              f_curr := Some (101 / 2032, 99 / 2032),
              svg_last_known_pos_x := 101 / 2032, svg_last_known_pos_y := 99 / 2032\<rparr>)"
    by (simp add: execute_move_def py_div_def Let_def sample_state_def sample_cfg_def)
  show ?thesis
    unfolding emit_moves.simps im by (simp add: ex)
qed

lemma sample_two_passes:
  "emit_moves sample_cfg ([((100, 1), 1000)] @ [((200, 2), 2000)]) init_acc sample_state
   = Some (\<lparr>prev_motor1 = 200, prev_motor2 = 2, prev_time = 2000\<rparr>,
           sample_state\<lparr>commands := [XYMove 0 100 1000, XYMove 2 100 1000],
              f_curr := Some (101 / 2032, 99 / 2032),
              svg_last_known_pos_x := 101 / 2032, svg_last_known_pos_y := 99 / 2032\<rparr>)"
  unfolding emit_moves_append sample_pass1 using sample_pass2 by simp


subsection \<open>Witnesses and the rate limit\<close>

lemma sample_interval2:
  "interval_move (par_max_step_rate sample_cfg) 100 2 1000 = Some (100, 2, 1000)"
  by (simp add: sample_cfg_def interval_move_def Let_def extend_time.simps [of _ 100 2 1000])

theorem C9_cumulative_steps_witness:
  "emit_moves sample_cfg ([((100, 1), 1000)] @ [((200, 2), 2000)]) init_acc sample_state
     = Some (\<lparr>prev_motor1 = 200, prev_motor2 = 2, prev_time = 2000\<rparr>,
           sample_state\<lparr>commands := [XYMove 0 100 1000, XYMove 2 100 1000],
              f_curr := Some (101 / 2032, 99 / 2032),
              svg_last_known_pos_x := 101 / 2032, svg_last_known_pos_y := 99 / 2032\<rparr>)
   \<and> emit_moves sample_cfg [((100, 1), 1000)] init_acc sample_state
     = Some (\<lparr>prev_motor1 = 100, prev_motor2 = 0, prev_time = 1000\<rparr>,
           sample_state\<lparr>commands := [XYMove 0 100 1000],
              f_curr := Some (25 / 1016, 25 / 1016),
              svg_last_known_pos_x := 25 / 1016, svg_last_known_pos_y := 25 / 1016\<rparr>)
   \<and> \<bar>of_int (1 - 0) / of_int (max (1000 - 0) 1)\<bar> < (0.002 :: real)
   \<and> \<not> \<bar>of_int (2 - 0) / of_int (max (2000 - 1000) 1)\<bar> < (0.002 :: real)
   \<and> (\<exists>sent m1 m2 t.
          interval_move (par_max_step_rate sample_cfg) 100 2 1000 = Some (m1, m2, t)
        \<and> m1 = 100 \<and> m2 = 2 \<and> t = 1000
        \<and> sent = [XYMove 0 100 1000]
        \<and> sum_list (map steps1_of sent) = 100 \<and> sum_list (map steps2_of sent) = 0
        \<and> commands (sample_state\<lparr>commands := [XYMove 0 100 1000, XYMove 2 100 1000],
              f_curr := Some (101 / 2032, 99 / 2032),
              svg_last_known_pos_x := 101 / 2032, svg_last_known_pos_y := 99 / 2032\<rparr>)
            = commands sample_state @ sent @ [XYMove m2 m1 t]
        \<and> sum_list (map steps1_of sent) + m1 = 200
        \<and> sum_list (map steps2_of sent) + m2 = 2)"
proof -
  have mode: "\<not> opt_preview sample_cfg \<and> \<not> resume_mode sample_state \<and> stopped sample_state = 0"
    by (simp add: sample_cfg_def sample_state_def)
  from C9_cumulative_steps [THEN mp, OF sample_two_passes]
  obtain acc1 s1 m1 m2 t where
    first: "emit_moves sample_cfg [((100, 1), 1000)] init_acc sample_state = Some (acc1, s1)"
    and im: "interval_move (par_max_step_rate sample_cfg) (200 - prev_motor1 acc1)
          (2 - prev_motor2 acc1) (2000 - prev_time acc1) = Some (m1, m2, t)"
    and q: "prev_motor1 \<lparr>prev_motor1 = 200, prev_motor2 = 2, prev_time = 2000\<rparr>
              = prev_motor1 acc1 + m1"
       "prev_motor2 \<lparr>prev_motor1 = 200, prev_motor2 = 2, prev_time = 2000\<rparr>
              = prev_motor2 acc1 + m2"
    and sent: "\<not> opt_preview sample_cfg \<and> \<not> resume_mode sample_state \<and> stopped sample_state = 0 \<longrightarrow>
           (\<exists>sent. commands s1 = commands sample_state @ sent
              \<and> commands (sample_state\<lparr>commands := [XYMove 0 100 1000, XYMove 2 100 1000],
                    f_curr := Some (101 / 2032, 99 / 2032),
                    svg_last_known_pos_x := 101 / 2032, svg_last_known_pos_y := 99 / 2032\<rparr>)
                  = commands sample_state @ sent
                   @ (if m1 \<noteq> 0 \<or> m2 \<noteq> 0 then [XYMove m2 m1 t] else [])
              \<and> prev_motor1 acc1 = sum_list (map steps1_of sent)
              \<and> prev_motor2 acc1 = sum_list (map steps2_of sent)
              \<and> prev_motor1 \<lparr>prev_motor1 = 200, prev_motor2 = 2, prev_time = 2000\<rparr>
                   = sum_list (map steps1_of sent) + m1
              \<and> prev_motor2 \<lparr>prev_motor1 = 200, prev_motor2 = 2, prev_time = 2000\<rparr>
                   = sum_list (map steps2_of sent) + m2)"
    by blast
  from first sample_pass1 have acc1: "acc1 = \<lparr>prev_motor1 = 100, prev_motor2 = 0, prev_time = 1000\<rparr>"
    and s1: "s1 = sample_state\<lparr>commands := [XYMove 0 100 1000],
              f_curr := Some (25 / 1016, 25 / 1016),
              svg_last_known_pos_x := 25 / 1016, svg_last_known_pos_y := 25 / 1016\<rparr>"
    by simp_all
  from im have im': "interval_move (par_max_step_rate sample_cfg) 100 2 1000 = Some (m1, m2, t)"
    unfolding acc1 by simp
  with sample_interval2 have m: "m1 = 100" "m2 = 2" "t = 1000" by simp_all
  from sent mode obtain snt where
    c1: "commands s1 = commands sample_state @ snt"
    and c2: "commands (sample_state\<lparr>commands := [XYMove 0 100 1000, XYMove 2 100 1000],
                    f_curr := Some (101 / 2032, 99 / 2032),
                    svg_last_known_pos_x := 101 / 2032, svg_last_known_pos_y := 99 / 2032\<rparr>)
                  = commands sample_state @ snt
                   @ (if m1 \<noteq> 0 \<or> m2 \<noteq> 0 then [XYMove m2 m1 t] else [])"
    and p: "prev_motor1 acc1 = sum_list (map steps1_of snt)"
       "prev_motor2 acc1 = sum_list (map steps2_of snt)"
    by blast
  from c1 have snt: "snt = [XYMove 0 100 1000]" unfolding s1 by (simp add: sample_state_def)
  have sums: "sum_list (map steps1_of snt) = 100" "sum_list (map steps2_of snt) = 0"
    using p unfolding acc1 by simp_all
  from c2 have c2': "commands (sample_state\<lparr>commands := [XYMove 0 100 1000, XYMove 2 100 1000],
              f_curr := Some (101 / 2032, 99 / 2032),
              svg_last_known_pos_x := 101 / 2032, svg_last_known_pos_y := 99 / 2032\<rparr>)
            = commands sample_state @ snt @ [XYMove m2 m1 t]"
    unfolding m by simp
  have ex: "\<exists>sent m1 m2 t.
          interval_move (par_max_step_rate sample_cfg) 100 2 1000 = Some (m1, m2, t)
        \<and> m1 = 100 \<and> m2 = 2 \<and> t = 1000
        \<and> sent = [XYMove 0 100 1000]
        \<and> sum_list (map steps1_of sent) = 100 \<and> sum_list (map steps2_of sent) = 0
        \<and> commands (sample_state\<lparr>commands := [XYMove 0 100 1000, XYMove 2 100 1000],
              f_curr := Some (101 / 2032, 99 / 2032),
              svg_last_known_pos_x := 101 / 2032, svg_last_known_pos_y := 99 / 2032\<rparr>)
            = commands sample_state @ sent @ [XYMove m2 m1 t]
        \<and> sum_list (map steps1_of sent) + m1 = 200
        \<and> sum_list (map steps2_of sent) + m2 = 2"
    using im' m snt sums c2'
    by (intro exI[of _ snt] exI[of _ m1] exI[of _ m2] exI[of _ t]) simp
  have slow: "\<bar>of_int (1 - 0) / of_int (max (1000 - 0) 1)\<bar> < (0.002 :: real)"
    "\<not> \<bar>of_int (2 - 0) / of_int (max (2000 - 1000) 1)\<bar> < (0.002 :: real)"
    by simp_all
  show ?thesis
    by (rule conjI [OF sample_two_passes conjI [OF sample_pass1 conjI [OF slow(1) conjI [OF slow(2) ex]]]])
qed






subsection \<open>Constant-velocity case\<close>

lemma linear_ramp_vi:
  assumes "linear_ramp slice rate vi vf vmax len cvm p = Some (p', cvm', vi')"
  shows "vi' = (vmax + vi) / 2 \<or> vi' = vmax"
  using assms
  by (auto simp: linear_ramp_def Let_def split: if_splits Option.bind_splits)

lemma triangle_vi:
  assumes "triangle slice rate vi vf adm ddm len cvm p = Some (p', cvm', vi')" and "0 \<le> vi"
  shows "0 \<le> vi'"
proof -
  from assms(1) obtain al ta qa td qd where
    ta: "(if al > 0 then py_sqrt (2 * vi * vi + 2 * vf * vf + 4 * al * len)
                          \<bind> (\<lambda>r. py_div (r - 2 * vi) (2 * al))
         else Some 0) = Some ta"
    and fin: "(if py_floor qa + py_floor qd > 4
         then ramp_up (py_floor qa) (if py_floor qa = 0 then 0 else ta) (vi + al * ta - vi) p
                \<bind> (\<lambda>p1. ramp_down (py_floor qd) td (vi + al * ta - vf) p1
                \<bind> (\<lambda>p2. Some (p2, cvm, vi)))
         else linear_ramp slice rate vi vf (vi + al * ta) len cvm p) = Some (p', cvm', vi')"
    unfolding triangle_def Let_def bind_eq_Some_conv by blast
  have vmax: "0 \<le> vi + al * ta"
  proof (cases "al > 0")
    case True
    with ta obtain r where r: "py_sqrt (2 * vi * vi + 2 * vf * vf + 4 * al * len) = Some r"
      and t: "py_div (r - 2 * vi) (2 * al) = Some ta"
      by (auto simp: bind_eq_Some_conv)
    from r have "0 \<le> r" by (auto simp: py_sqrt_def split: if_splits)
    moreover from t True have "ta = (r - 2 * vi) / (2 * al)"
      by (auto simp: py_div_def split: if_splits)
    then have "vi + al * ta = r / 2" using True by (simp add: field_simps)
    ultimately show ?thesis by simp
  next
    case False
    with ta have "ta = 0" by simp
    with assms(2) show ?thesis by simp
  qed
  show ?thesis
  proof (cases "py_floor qa + py_floor qd > 4")
    case True
    with fin have "vi' = vi" by (auto simp: bind_eq_Some_conv)
    with assms(2) show ?thesis by simp
  next
    case False
    with fin have "linear_ramp slice rate vi vf (vi + al * ta) len cvm p = Some (p', cvm', vi')"
      by simp
    from linear_ramp_vi[OF this] vmax assms(2) show ?thesis by auto
  qed
qed

lemma ramp_cases_nonneg:
  assumes "ramp_cases cfg is_pen_up len v_i v_f = Some (p, cvm, vi, vf)"
    and "0 \<le> v_i" and "0 \<le> v_f" and "0 \<le> active_speed_limit cfg is_pen_up"
  shows "0 \<le> vi \<and> 0 \<le> vf"
proof -
  define sl where "sl = (if is_pen_up then self_speed_penup cfg else self_speed_pendown cfg)"
  have sl: "0 \<le> sl" using assms(4) by (simp add: sl_def active_speed_limit_def)
  have v0: "0 \<le> min v_i sl" "0 \<le> min v_f sl" using assms(2,3) sl by simp_all
  from assms(1) obtain tam tdm mvte where
    fin: "(if \<not> (opt_const_speed cfg \<and> \<not> is_pen_up) \<or> is_pen_up then
       (if len > (min v_i sl * tam + 0.5 * (if is_pen_up then par_accel_rate_pu cfg * opt_accel cfg / 100
                 else par_accel_rate cfg * opt_accel cfg / 100) * tam * tam)
              + (min v_f sl * tdm + 0.5 * (if is_pen_up then par_accel_rate_pu cfg * opt_accel cfg / 100
                 else par_accel_rate cfg * opt_accel cfg / 100) * tdm * tdm) + par_time_slice cfg * sl
            \<and> mvte > 4 * par_time_slice cfg
        then trapezoid (par_time_slice cfg) sl (min v_i sl) (min v_f sl) tam tdm
               (min v_i sl * tam + 0.5 * (if is_pen_up then par_accel_rate_pu cfg * opt_accel cfg / 100
                 else par_accel_rate cfg * opt_accel cfg / 100) * tam * tam)
               (min v_f sl * tdm + 0.5 * (if is_pen_up then par_accel_rate_pu cfg * opt_accel cfg / 100
                 else par_accel_rate cfg * opt_accel cfg / 100) * tdm * tdm) len
               \<lparr>velocity = min v_i sl, time_elapsed = 0, position = 0,
                  duration_array = [], dist_array = []\<rparr>
             \<bind> (\<lambda>p. Some (p, opt_const_speed cfg \<and> \<not> is_pen_up, min v_i sl, min v_f sl))
        else triangle (par_time_slice cfg) (if is_pen_up then par_accel_rate_pu cfg * opt_accel cfg / 100
                 else par_accel_rate cfg * opt_accel cfg / 100) (min v_i sl) (min v_f sl)
               (min v_i sl * tam + 0.5 * (if is_pen_up then par_accel_rate_pu cfg * opt_accel cfg / 100
                 else par_accel_rate cfg * opt_accel cfg / 100) * tam * tam)
               (min v_f sl * tdm + 0.5 * (if is_pen_up then par_accel_rate_pu cfg * opt_accel cfg / 100
                 else par_accel_rate cfg * opt_accel cfg / 100) * tdm * tdm) len
               (opt_const_speed cfg \<and> \<not> is_pen_up)
               \<lparr>velocity = min v_i sl, time_elapsed = 0, position = 0,
                  duration_array = [], dist_array = []\<rparr>
             \<bind> (\<lambda>(p, constant_vel_mode, vi). Some (p, constant_vel_mode, vi, min v_f sl)))
     else Some (\<lparr>velocity = min v_i sl, time_elapsed = 0, position = 0,
                  duration_array = [], dist_array = []\<rparr>,
                opt_const_speed cfg \<and> \<not> is_pen_up, min v_i sl, min v_f sl)) = Some (p, cvm, vi, vf)"
    unfolding ramp_cases_def Let_def sl_def [symmetric] bind_eq_Some_conv by blast
  have "vf = min v_f sl \<and> (vi = min v_i sl
     \<or> (\<exists>slice rate adm ddm cvm0 p0 p1 cvm1.
           triangle slice rate (min v_i sl) (min v_f sl) adm ddm len cvm0 p0 = Some (p1, cvm1, vi)))"
    using fin
    by (auto simp: bind_eq_Some_conv split: if_splits prod.splits)
  with v0 triangle_vi show ?thesis by blast
qed


text \<open>
  C10: when case 4 is reached with a positive pen-down speed (and end-point velocities
  and speed limit that are not negative), the chosen velocity is strictly positive: it
  is the pen-down speed, or the larger of the two end-point velocities, or a tenth of
  the pen-down speed when both are zero; so \<open>segment_length_inches / velocity\<close> does
  not divide by zero.
\<close>

theorem C10_constant_velocity_positive:
  assumes "ramp_cases cfg is_pen_up len v_i v_f = Some (p, True, vi, vf)"
    and "0 < self_speed_pendown cfg"
    and "0 \<le> v_i" and "0 \<le> v_f" and "0 \<le> active_speed_limit cfg is_pen_up"
  shows "0 < chosen_velocity cfg is_pen_up vi vf
    \<and> (chosen_velocity cfg is_pen_up vi vf = self_speed_pendown cfg
       \<or> chosen_velocity cfg is_pen_up vi vf = max vi vf
       \<or> (vi = 0 \<and> vf = 0 \<and> chosen_velocity cfg is_pen_up vi vf = self_speed_pendown cfg / 10))
    \<and> py_div len (chosen_velocity cfg is_pen_up vi vf)
        = Some (len / chosen_velocity cfg is_pen_up vi vf)"
proof -
  from ramp_cases_nonneg[OF assms(1,3,4,5)] have nn: "0 \<le> vi" "0 \<le> vf" by simp_all
  have pos: "0 < chosen_velocity cfg is_pen_up vi vf"
    using nn assms(2) by (auto simp: chosen_velocity_def)
  have shape: "chosen_velocity cfg is_pen_up vi vf = self_speed_pendown cfg
       \<or> chosen_velocity cfg is_pen_up vi vf = max vi vf
       \<or> (vi = 0 \<and> vf = 0 \<and> chosen_velocity cfg is_pen_up vi vf = self_speed_pendown cfg / 10)"
    using nn by (auto simp: chosen_velocity_def max_def)
  from pos have "py_div len (chosen_velocity cfg is_pen_up vi vf)
        = Some (len / chosen_velocity cfg is_pen_up vi vf)"
    by (simp add: py_div_def)
  with pos shape show ?thesis by blast
qed

lemma sample_ramp_cases:
  "ramp_cases sample_cfg False (985 / 2032) 0 0
   = Some (\<lparr>velocity = 0, time_elapsed = 0, position = 0, duration_array = [], dist_array = []\<rparr>,
           True, 0, 0)"
  by (simp add: ramp_cases_def py_div_def sample_cfg_def Let_def)

theorem C10_constant_velocity_positive_witness:
  "ramp_cases sample_cfg False (985 / 2032) 0 0
     = Some (\<lparr>velocity = 0, time_elapsed = 0, position = 0, duration_array = [], dist_array = []\<rparr>,
           True, 0, 0)
   \<and> 0 < self_speed_pendown sample_cfg \<and> (0::real) \<le> 0
   \<and> 0 \<le> active_speed_limit sample_cfg False
   \<and> 0 < chosen_velocity sample_cfg False 0 0
   \<and> py_div (985 / 2032) (chosen_velocity sample_cfg False 0 0)
       = Some ((985 / 2032) / chosen_velocity sample_cfg False 0 0)"
proof -
  have a: "0 < self_speed_pendown sample_cfg" by (simp add: sample_cfg_def)
  have b: "(0::real) \<le> 0" by simp
  have c: "0 \<le> active_speed_limit sample_cfg False"
    by (simp add: active_speed_limit_def sample_cfg_def)
  from C10_constant_velocity_positive [OF sample_ramp_cases a b b c] sample_ramp_cases a b c
  show ?thesis by blast
qed

subsection \<open>Reading the checkpoint\<close>



lemma assign_cases:
  "assign v upd r = (e, r1) \<Longrightarrow>
     (\<exists>a. v = Inr a \<and> e = None \<and> r1 = upd a r) \<or> (\<exists>x. v = Inl x \<and> e = Some x \<and> r1 = r)"
  by (auto simp: assign_def split: sum.splits)

lemma py_int_TypeError: "py_int pint x = Inl TypeError \<longleftrightarrow> x = None"
  by (auto simp: py_int_def split: option.splits)

lemma py_float_TypeError: "py_float pfloat x = Inl TypeError \<longleftrightarrow> x = None"
  by (auto simp: py_float_def split: option.splits)

lemma py_int_None [simp]: "py_int pint None = Inl TypeError"
  by (simp add: py_int_def)

lemma py_float_None [simp]: "py_float pfloat None = Inl TypeError"
  by (simp add: py_float_def)



lemma read_core_missing:
  assumes "\<exists>k \<in> set core_keys. d k = None"
  shows "fst (read_core pint pfloat d r) \<noteq> None"
  using assms
  by (auto simp: core_keys_def read_core_def then_stmt_def assign_def split: sum.splits)


lemma read_core_TypeError:
  assumes "read_core pint pfloat d r = (Some TypeError, r1)"
  shows "\<exists>k \<in> set core_keys. d k = None"
proof (rule ccontr)
  assume "\<not> (\<exists>k \<in> set core_keys. d k = None)"
  then have "\<forall>k \<in> set core_keys. py_int pint (d k) \<noteq> Inl TypeError \<and> py_float pfloat (d k) \<noteq> Inl TypeError"
    by (simp add: py_int_TypeError py_float_TypeError)
  then show False using assms
    by (auto simp: core_keys_def read_core_def then_stmt_def assign_def split: sum.splits)
qed







lemma read_before_all: "read_before 8 d \<longleftrightarrow> (\<forall>k \<in> set core_keys. d k \<noteq> None)"
  by (simp add: read_before_def core_keys_def)

lemma not_TypeError: "e \<noteq> Some ValueError \<Longrightarrow> e = Some x \<Longrightarrow> x = TypeError"
  by (cases x) auto

















subsection \<open>Trajectory planner: feasibility of the planned speeds\<close>

lemma vjunction_max_nonneg:
  assumes "vjunction_max rate delta c = Some v"
  shows "0 \<le> v"
  using assms
  by (auto simp: vjunction_max_def py_sqrt_def bind_eq_Some_conv split: if_splits)

lemma forward_pass_length:
  "forward_pass sl a ad dl v ds us = Some vs \<Longrightarrow> length vs = min (length ds) (length us - 1)"
proof (induction sl a ad dl v ds us arbitrary: vs rule: forward_pass.induct)
  case (1 sl a ad dl v d ds u_prev u_cur us)
  from "1.prems" obtain vj st rest where
    vj: "vjunction_max a dl (cosine_factor u_prev u_cur) = Some vj"
    and st: "f32 (min (if d > ad then sl else (let w = vFinal_Vi_A_Dx v a d in if w > sl then sl else w)) vj)
              = Some st"
    and rest: "forward_pass sl a ad dl st ds (u_cur # us) = Some rest"
    and vs: "vs = st # rest"
    by (auto simp: Let_def bind_eq_Some_conv)
  from "1.IH"[OF refl vj refl st rest] show ?case unfolding vs by simp
qed simp_all

lemma junction_speed_bound:
  fixes v d a sl ad vj :: real
  assumes "0 \<le> v" and "0 \<le> sl" and "0 < a" and "ad = sl\<^sup>2 / (2 * a)" and "0 \<le> d" and "0 \<le> vj"
  defines "w \<equiv> min (if d > ad then sl
                   else (let u = vFinal_Vi_A_Dx v a d in if u > sl then sl else u)) vj"
  shows "0 \<le> w \<and> w\<^sup>2 \<le> v\<^sup>2 + 2 * a * d"
proof -
  have X: "0 \<le> v\<^sup>2 + 2 * a * d" using assms by simp
  have vF: "vFinal_Vi_A_Dx v a d = sqrt (v\<^sup>2 + 2 * a * d)"
    by (simp add: vFinal_Vi_A_Dx_def power2_eq_square)
  have sq: "(sqrt (v\<^sup>2 + 2 * a * d))\<^sup>2 = v\<^sup>2 + 2 * a * d" using X by simp
  show ?thesis
  proof (cases "d > ad")
    case True
    then have w: "w = min sl vj" by (simp add: w_def)
    have w0: "0 \<le> w" using assms(2,6) w by simp
    have "w \<le> sl" using w by simp
    with w0 have "w\<^sup>2 \<le> sl\<^sup>2" by (simp add: power_mono)
    also have "sl\<^sup>2 = ad * (2 * a)" using assms(3,4) by simp
    also have "\<dots> \<le> d * (2 * a)" using True assms(3) by (simp add: mult_right_mono)
    also have "\<dots> \<le> v\<^sup>2 + 2 * a * d" by (simp add: mult.commute)
    finally show ?thesis using w0 by simp
  next
    case False
    then have w: "w = min (if sqrt (v\<^sup>2 + 2 * a * d) > sl then sl else sqrt (v\<^sup>2 + 2 * a * d)) vj"
      by (simp add: w_def vF Let_def)
    have s0: "0 \<le> sqrt (v\<^sup>2 + 2 * a * d)" using X by simp
    have w0: "0 \<le> w" using assms(2,6) s0 w by auto
    have "w \<le> sqrt (v\<^sup>2 + 2 * a * d)" using w by auto
    with w0 have "w\<^sup>2 \<le> (sqrt (v\<^sup>2 + 2 * a * d))\<^sup>2" by (simp add: power_mono)
    with sq w0 show ?thesis by simp
  qed
qed

text \<open>A stored single against the float it was rounded from, for values that are not negative.\<close>

lemma f32_upper:
  assumes "f32 x = Some y" and "0 \<le> x"
  shows "0 \<le> y \<and> y \<le> x + x / 2 ^ 24 + 1 / 2 ^ 150 \<and> x \<le> y + x / 2 ^ 24 + 1 / 2 ^ 150"
  using f32_error [OF assms(1)] f32_nonneg [OF assms] assms(2) by (simp add: abs_le_iff)

lemma forward_pass_props:
  assumes "forward_pass sl a ad dl v ds us = Some vs"
    and "0 \<le> v" and "0 \<le> sl" and "0 < a" and "ad = sl\<^sup>2 / (2 * a)" and "\<forall>d \<in> set ds. 0 \<le> d"
  shows "\<forall>i < length vs. 0 \<le> vs ! i
     \<and> vs ! i \<le> sqrt (((v # vs) ! i)\<^sup>2 + 2 * a * (ds ! i))
                + sqrt (((v # vs) ! i)\<^sup>2 + 2 * a * (ds ! i)) / 2 ^ 24 + 1 / 2 ^ 150"
  using assms
proof (induction sl a ad dl v ds us arbitrary: vs rule: forward_pass.induct)
  case (1 sl a ad dl v d ds u_prev u_cur us)
  define w where "w vj = min (if d > ad then sl
                   else (let u = vFinal_Vi_A_Dx v a d in if u > sl then sl else u)) vj" for vj
  from "1.prems"(1) obtain vj st rest where
    vj: "vjunction_max a dl (cosine_factor u_prev u_cur) = Some vj"
    and st: "f32 (w vj) = Some st"
    and rest: "forward_pass sl a ad dl st ds (u_cur # us) = Some rest"
    and vs: "vs = st # rest"
    by (auto simp: Let_def bind_eq_Some_conv w_def)
  have d0: "0 \<le> d" and ds0: "\<forall>d \<in> set ds. 0 \<le> d" using "1.prems"(6) by simp_all
  from junction_speed_bound[OF "1.prems"(2,3,4,5) d0 vjunction_max_nonneg[OF vj]]
  have w0: "0 \<le> w vj" and wb: "(w vj)\<^sup>2 \<le> v\<^sup>2 + 2 * a * d" by (simp_all add: w_def)
  from wb have wB: "w vj \<le> sqrt (v\<^sup>2 + 2 * a * d)" by (rule real_le_rsqrt)
  from f32_upper [OF st w0] have st0: "0 \<le> st"
    and stb: "st \<le> w vj + w vj / 2 ^ 24 + 1 / 2 ^ 150" by simp_all
  have "w vj / 2 ^ 24 \<le> sqrt (v\<^sup>2 + 2 * a * d) / 2 ^ 24"
    using wB by (simp add: divide_right_mono)
  with stb wB have stB: "st \<le> sqrt (v\<^sup>2 + 2 * a * d) + sqrt (v\<^sup>2 + 2 * a * d) / 2 ^ 24 + 1 / 2 ^ 150"
    by linarith
  have IH: "\<forall>i < length rest. 0 \<le> rest ! i
     \<and> rest ! i \<le> sqrt (((st # rest) ! i)\<^sup>2 + 2 * a * (ds ! i))
                + sqrt (((st # rest) ! i)\<^sup>2 + 2 * a * (ds ! i)) / 2 ^ 24 + 1 / 2 ^ 150"
    using "1.IH"[OF refl vj refl st[unfolded w_def] rest st0 "1.prems"(3,4,5) ds0] .
  show ?case unfolding vs
  proof (intro allI impI)
    fix i assume "i < length (st # rest)"
    then show "0 \<le> (st # rest) ! i
     \<and> (st # rest) ! i \<le> sqrt (((v # st # rest) ! i)\<^sup>2 + 2 * a * ((d # ds) ! i))
                + sqrt (((v # st # rest) ! i)\<^sup>2 + 2 * a * ((d # ds) ! i)) / 2 ^ 24 + 1 / 2 ^ 150"
      using st0 stB IH by (cases i) simp_all
  qed
qed simp_all

text \<open>
  One step of the reverse pass at vertex \<open>i\<close>, with \<open>vf\<close> the speed at \<open>i\<close>, \<open>vi\<close> the
  speed at \<open>i - 1\<close> and \<open>new\<close> the speed it leaves at \<open>i - 1\<close>.
\<close>

lemma reverse_lowered:
  fixes a d vi vf new :: real
  assumes a0: "0 < a" and d0: "0 < d" and vf0: "0 \<le> vf" and gt: "vf < vi"
    and st: "f32 (let m = vInitial_VF_A_Dx vf (- a) d in if m < vi then m else vi) = Some new"
  shows "0 \<le> new \<and> new \<le> vi + vi / 2 ^ 24 + 1 / 2 ^ 150
     \<and> new \<le> sqrt (vf\<^sup>2 + 2 * a * d) + sqrt (vf\<^sup>2 + 2 * a * d) / 2 ^ 24 + 1 / 2 ^ 150
     \<and> vf \<le> sqrt (new\<^sup>2 + 2 * a * d) + sqrt (new\<^sup>2 + 2 * a * d) / 2 ^ 22 + 1 / 2 ^ 148"
proof -
  define B where "B = sqrt (vf\<^sup>2 + 2 * a * d)"
  define u where "u = (if B < vi then B else vi)"
  have ad: "0 \<le> 2 * a * d" using a0 d0 by simp
  have m: "vInitial_VF_A_Dx vf (- a) d = B"
    by (simp add: vInitial_VF_A_Dx_def power2_eq_square B_def)
  have ge: "vf \<le> B"
  proof -
    have "vf = sqrt (vf\<^sup>2)" using vf0 by simp
    also have "\<dots> \<le> B" unfolding B_def by (rule real_sqrt_le_mono) (use ad in simp)
    finally show ?thesis .
  qed
  have st': "f32 u = Some new" using st unfolding m u_def by (simp add: Let_def)
  have u1: "vf \<le> u" using ge gt by (simp add: u_def)
  have u0: "0 \<le> u" using u1 vf0 by simp
  have u2: "u \<le> vi" and u3: "u \<le> B" by (simp_all add: u_def)
  from f32_upper [OF st' u0] have n0: "0 \<le> new"
    and n1: "new \<le> u + u / 2 ^ 24 + 1 / 2 ^ 150"
    and n2: "u \<le> new + u / 2 ^ 24 + 1 / 2 ^ 150" by simp_all
  have c1: "new \<le> vi + vi / 2 ^ 24 + 1 / 2 ^ 150"
  proof -
    have "u / 2 ^ 24 \<le> vi / 2 ^ 24" using u2 by (simp add: divide_right_mono)
    with n1 u2 show ?thesis by linarith
  qed
  have c2: "new \<le> B + B / 2 ^ 24 + 1 / 2 ^ 150"
  proof -
    have "u / 2 ^ 24 \<le> B / 2 ^ 24" using u3 by (simp add: divide_right_mono)
    with n1 u3 show ?thesis by linarith
  qed
  define C where "C = sqrt (new\<^sup>2 + 2 * a * d)"
  have nC: "new \<le> C"
  proof -
    have "new = sqrt (new\<^sup>2)" using n0 by simp
    also have "\<dots> \<le> C" unfolding C_def by (rule real_sqrt_le_mono) (use ad in simp)
    finally show ?thesis .
  qed
  have C0: "0 \<le> C" using nC n0 by simp
  have "u \<le> new + new / 2 ^ 22 + 1 / 2 ^ 148"
    using n2 u0 n0 by (simp add: field_simps)
  also have "\<dots> \<le> C + C / 2 ^ 22 + 1 / 2 ^ 148"
  proof -
    have "new / 2 ^ 22 \<le> C / 2 ^ 22" using nC by (simp add: divide_right_mono)
    with nC show ?thesis by linarith
  qed
  finally have c3: "vf \<le> C + C / 2 ^ 22 + 1 / 2 ^ 148" using u1 by linarith
  from n0 c1 c2 c3 show ?thesis unfolding B_def C_def by simp
qed

text \<open>Two roundings in a row, and the two wider bounds that the final result is held to.\<close>

lemma rounded_twice:
  fixes b y z :: real
  assumes "0 \<le> b" and "y \<le> b + b / 2 ^ 24 + 1 / 2 ^ 150" and "z \<le> y + y / 2 ^ 24 + 1 / 2 ^ 150"
  shows "z \<le> b + 3 * b / 2 ^ 24 + 3 / 2 ^ 150"
proof -
  have "y / 2 ^ 24 \<le> (b + b / 2 ^ 24 + 1 / 2 ^ 150) / 2 ^ 24"
    using assms(2) by (rule divide_right_mono) simp
  also have "\<dots> = b / 2 ^ 24 + b / 2 ^ 48 + 1 / 2 ^ 174" by (simp add: add_divide_distrib)
  also have "\<dots> \<le> b / 2 ^ 24 + b / 2 ^ 24 + 1 / 2 ^ 150"
  proof -
    have "b / 2 ^ 48 \<le> b / 2 ^ 24" using assms(1) by (simp add: field_simps)
    moreover have "(1::real) / 2 ^ 174 \<le> 1 / 2 ^ 150" by simp
    ultimately show ?thesis by linarith
  qed
  finally show ?thesis using assms(2,3) by linarith
qed

lemma rounded_once_twice:
  fixes b y :: real
  assumes "0 \<le> b" and "y \<le> b + b / 2 ^ 24 + 1 / 2 ^ 150"
  shows "y \<le> b + 3 * b / 2 ^ 24 + 3 / 2 ^ 150"
proof -
  have "b / 2 ^ 24 \<le> 3 * b / 2 ^ 24" using assms(1) by (simp add: field_simps)
  moreover have "(1::real) / 2 ^ 150 \<le> 3 / 2 ^ 150" by simp
  ultimately show ?thesis using assms(2) by linarith
qed

lemma rounded_twice_tolerance:
  fixes b y :: real
  assumes "0 \<le> b" and "y \<le> b + 3 * b / 2 ^ 24 + 3 / 2 ^ 150"
  shows "y \<le> b + b / 2 ^ 22 + 1 / 2 ^ 148"
proof -
  have "3 * b / 2 ^ 24 \<le> b / 2 ^ 22" using assms(1) by (simp add: field_simps)
  moreover have "(3::real) / 2 ^ 150 \<le> 1 / 2 ^ 148" by simp
  ultimately show ?thesis using assms(2) by linarith
qed

lemma reach_nonneg:
  fixes a d v :: real
  assumes "0 < a" and "0 < d"
  shows "0 \<le> sqrt (v\<^sup>2 + 2 * a * d) \<and> v \<le> sqrt (v\<^sup>2 + 2 * a * d)"
proof -
  have ad: "0 \<le> 2 * a * d" using assms by simp
  then have 1: "0 \<le> sqrt (v\<^sup>2 + 2 * a * d)" by simp
  have "v \<le> \<bar>v\<bar>" by simp
  also have "\<dots> = sqrt (v\<^sup>2)" by simp
  also have "\<dots> \<le> sqrt (v\<^sup>2 + 2 * a * d)" by (rule real_sqrt_le_mono) (use ad in simp)
  finally show ?thesis using 1 by simp
qed

text \<open>
  The reverse pass from index \<open>k\<close> downwards. Before it reaches a vertex the speed there
  is one rounding above what the forward pass allows (two at index \<open>k\<close>, which the
  previous step may have lowered and stored again); behind it both inequalities hold
  up to the rounding of the stored singles.
\<close>

lemma reverse_pass_props:
  fixes a :: real
  defines "B \<equiv> \<lambda>v d. sqrt (v\<^sup>2 + 2 * a * d)"
  assumes rp: "reverse_pass a dists k vels = Some out"
    and a0: "0 < a" and len: "length vels = length dists" and k: "k < length vels"
    and nn: "\<forall>i < length vels. 0 \<le> vels ! i"
    and dp: "\<forall>i. 1 \<le> i \<and> i < length dists \<longrightarrow> 0 < dists ! i"
    and S: "\<forall>i. 1 \<le> i \<and> i < k \<longrightarrow>
          vels ! i \<le> B (vels ! (i - 1)) (dists ! i) + B (vels ! (i - 1)) (dists ! i) / 2 ^ 24 + 1 / 2 ^ 150"
    and Wk: "1 \<le> k \<longrightarrow>
          vels ! k \<le> B (vels ! (k - 1)) (dists ! k) + 3 * B (vels ! (k - 1)) (dists ! k) / 2 ^ 24 + 3 / 2 ^ 150"
    and D: "\<forall>i. k < i \<and> i < length vels \<longrightarrow>
          vels ! i \<le> B (vels ! (i - 1)) (dists ! i) + B (vels ! (i - 1)) (dists ! i) / 2 ^ 22 + 1 / 2 ^ 148
        \<and> vels ! (i - 1) \<le> B (vels ! i) (dists ! i) + B (vels ! i) (dists ! i) / 2 ^ 22 + 1 / 2 ^ 148"
  shows "length out = length vels \<and> (\<forall>i < length vels. 0 \<le> out ! i)
    \<and> (\<forall>i. 1 \<le> i \<and> i < length vels \<longrightarrow>
          out ! i \<le> B (out ! (i - 1)) (dists ! i) + B (out ! (i - 1)) (dists ! i) / 2 ^ 22 + 1 / 2 ^ 148
        \<and> out ! (i - 1) \<le> B (out ! i) (dists ! i) + B (out ! i) (dists ! i) / 2 ^ 22 + 1 / 2 ^ 148)"
  using rp len k nn dp S Wk D
proof (induction k arbitrary: vels)
  case 0
  then have out: "out = vels" by simp
  show ?case unfolding out using "0.prems"(4,8) by (simp add: Suc_le_eq)
next
  case (Suc k)
  let ?n = "length vels"
  define vf where "vf = vels ! Suc k"
  define vi where "vi = vels ! k"
  define d where "d = dists ! Suc k"
  have kn: "Suc k < ?n" "k < ?n" using Suc.prems(3) by simp_all
  have d0: "0 < d" using Suc.prems(2,5) kn unfolding d_def by simp
  have vi0: "0 \<le> vi" and vf0: "0 \<le> vf" using Suc.prems(4) kn unfolding vi_def vf_def by simp_all
  have Bn: "0 \<le> B v d" and Bv: "v \<le> B v d" for v
    using reach_nonneg [OF a0 d0, of v] by (simp_all add: B_def)
  have Wf: "vf \<le> B vi d + 3 * B vi d / 2 ^ 24 + 3 / 2 ^ 150"
    using Suc.prems(7) unfolding vf_def vi_def d_def by simp
  have Sk: "vi \<le> B (vels ! (k - 1)) (dists ! k) + B (vels ! (k - 1)) (dists ! k) / 2 ^ 24 + 1 / 2 ^ 150"
    if "1 \<le> k"
    using Suc.prems(6) that unfolding vi_def by simp
  have Bk: "0 \<le> B (vels ! (k - 1)) (dists ! k)" if "1 \<le> k"
  proof -
    have "0 < dists ! k" using Suc.prems(2,5) kn that by simp
    from reach_nonneg [OF a0 this] show ?thesis by (simp add: B_def)
  qed
  show ?case
  proof (cases "vi > vf")
    case True
    from Suc.prems(1) True d0 obtain new where
      st: "f32 (let m = vInitial_VF_A_Dx vf (- a) d in if m < vi then m else vi) = Some new"
      and rec: "reverse_pass a dists k (vels[k := new]) = Some out"
      unfolding vf_def vi_def d_def by (auto simp: Let_def bind_eq_Some_conv)
    from reverse_lowered [OF a0 d0 vf0 True st]
    have n0: "0 \<le> new" and c1: "new \<le> vi + vi / 2 ^ 24 + 1 / 2 ^ 150"
      and c2: "new \<le> B vf d + B vf d / 2 ^ 24 + 1 / 2 ^ 150"
      and c3: "vf \<le> B new d + B new d / 2 ^ 22 + 1 / 2 ^ 148"
      unfolding B_def by simp_all
    define vels' where "vels' = vels[k := new]"
    have nth: "vels' ! i = (if i = k then new else vels ! i)" if "i < ?n" for i
      using that unfolding vels'_def by (simp add: nth_list_update)
    have len': "length vels' = ?n" unfolding vels'_def by simp
    have p2: "length vels' = length dists" using Suc.prems(2) len' by simp
    have p3: "k < length vels'" using kn len' by simp
    have p4: "\<forall>i < length vels'. 0 \<le> vels' ! i"
      using Suc.prems(4) n0 by (simp add: len' nth)
    have p6: "\<forall>i. 1 \<le> i \<and> i < k \<longrightarrow>
          vels' ! i \<le> B (vels' ! (i - 1)) (dists ! i) + B (vels' ! (i - 1)) (dists ! i) / 2 ^ 24 + 1 / 2 ^ 150"
    proof (intro allI impI)
      fix i assume i: "1 \<le> i \<and> i < k"
      then have lt: "i < ?n" "i - 1 < ?n" "i \<noteq> k" "i - 1 \<noteq> k" using kn by auto
      have e: "vels' ! i = vels ! i" "vels' ! (i - 1) = vels ! (i - 1)"
        using nth [OF lt(1)] nth [OF lt(2)] lt(3,4) by simp_all
      from Suc.prems(6) i show "vels' ! i \<le> B (vels' ! (i - 1)) (dists ! i)
          + B (vels' ! (i - 1)) (dists ! i) / 2 ^ 24 + 1 / 2 ^ 150"
        unfolding e by simp
    qed
    have p7: "1 \<le> k \<longrightarrow>
          vels' ! k \<le> B (vels' ! (k - 1)) (dists ! k) + 3 * B (vels' ! (k - 1)) (dists ! k) / 2 ^ 24 + 3 / 2 ^ 150"
    proof
      assume k1: "1 \<le> k"
      then have lt: "k - 1 < ?n" "k - 1 \<noteq> k" using kn by auto
      have e: "vels' ! k = new" "vels' ! (k - 1) = vels ! (k - 1)"
        using nth [OF kn(2)] nth [OF lt(1)] lt(2) by simp_all
      show "vels' ! k \<le> B (vels' ! (k - 1)) (dists ! k)
          + 3 * B (vels' ! (k - 1)) (dists ! k) / 2 ^ 24 + 3 / 2 ^ 150"
        unfolding e by (rule rounded_twice [OF Bk [OF k1] Sk [OF k1] c1])
    qed
    have p8: "\<forall>i. k < i \<and> i < length vels' \<longrightarrow>
          vels' ! i \<le> B (vels' ! (i - 1)) (dists ! i) + B (vels' ! (i - 1)) (dists ! i) / 2 ^ 22 + 1 / 2 ^ 148
        \<and> vels' ! (i - 1) \<le> B (vels' ! i) (dists ! i) + B (vels' ! i) (dists ! i) / 2 ^ 22 + 1 / 2 ^ 148"
    proof (intro allI impI)
      fix i assume i: "k < i \<and> i < length vels'"
      show "vels' ! i \<le> B (vels' ! (i - 1)) (dists ! i) + B (vels' ! (i - 1)) (dists ! i) / 2 ^ 22 + 1 / 2 ^ 148
        \<and> vels' ! (i - 1) \<le> B (vels' ! i) (dists ! i) + B (vels' ! i) (dists ! i) / 2 ^ 22 + 1 / 2 ^ 148"
      proof (cases "i = Suc k")
        case True
        have e: "vels' ! i = vf" "vels' ! (i - 1) = new" "dists ! i = d"
          using True nth [OF kn(1)] nth [OF kn(2)] by (simp_all add: vf_def d_def)
        have "new \<le> B vf d + B vf d / 2 ^ 22 + 1 / 2 ^ 148"
          by (rule rounded_twice_tolerance [OF Bn rounded_once_twice [OF Bn c2]])
        with c3 show ?thesis unfolding e by simp
      next
        case False
        with i have gt: "Suc k < i" by simp
        then have lt: "i < ?n" "i - 1 < ?n" "i \<noteq> k" "i - 1 \<noteq> k" using i len' by auto
        have e: "vels' ! i = vels ! i" "vels' ! (i - 1) = vels ! (i - 1)"
          using nth [OF lt(1)] nth [OF lt(2)] lt(3,4) by simp_all
        from Suc.prems(8) gt i show ?thesis unfolding e by (simp add: len')
      qed
    qed
    have rec': "reverse_pass a dists k vels' = Some out" using rec unfolding vels'_def .
    from Suc.IH [OF rec' p2 p3 p4 Suc.prems(5) p6 p7 p8]
    show ?thesis by (simp add: len')
  next
    case False
    with Suc.prems(1) have rec: "reverse_pass a dists k vels = Some out"
      unfolding vf_def vi_def d_def by (simp add: Let_def)
    have p6: "\<forall>i. 1 \<le> i \<and> i < k \<longrightarrow>
          vels ! i \<le> B (vels ! (i - 1)) (dists ! i) + B (vels ! (i - 1)) (dists ! i) / 2 ^ 24 + 1 / 2 ^ 150"
      using Suc.prems(6) by simp
    have p7: "1 \<le> k \<longrightarrow>
          vels ! k \<le> B (vels ! (k - 1)) (dists ! k) + 3 * B (vels ! (k - 1)) (dists ! k) / 2 ^ 24 + 3 / 2 ^ 150"
    proof
      assume k1: "1 \<le> k"
      show "vels ! k \<le> B (vels ! (k - 1)) (dists ! k)
          + 3 * B (vels ! (k - 1)) (dists ! k) / 2 ^ 24 + 3 / 2 ^ 150"
        using rounded_once_twice [OF Bk [OF k1] Sk [OF k1]] by (simp add: vi_def)
    qed
    have p8: "\<forall>i. k < i \<and> i < length vels \<longrightarrow>
          vels ! i \<le> B (vels ! (i - 1)) (dists ! i) + B (vels ! (i - 1)) (dists ! i) / 2 ^ 22 + 1 / 2 ^ 148
        \<and> vels ! (i - 1) \<le> B (vels ! i) (dists ! i) + B (vels ! i) (dists ! i) / 2 ^ 22 + 1 / 2 ^ 148"
    proof (intro allI impI)
      fix i assume i: "k < i \<and> i < length vels"
      show "vels ! i \<le> B (vels ! (i - 1)) (dists ! i) + B (vels ! (i - 1)) (dists ! i) / 2 ^ 22 + 1 / 2 ^ 148
        \<and> vels ! (i - 1) \<le> B (vels ! i) (dists ! i) + B (vels ! i) (dists ! i) / 2 ^ 22 + 1 / 2 ^ 148"
      proof (cases "i = Suc k")
        case True
        have e: "vels ! i = vf" "vels ! (i - 1) = vi" "dists ! i = d"
          using True by (simp_all add: vf_def vi_def d_def)
        have f: "vf \<le> B vi d + B vi d / 2 ^ 22 + 1 / 2 ^ 148"
          by (rule rounded_twice_tolerance [OF Bn Wf])
        have "vi \<le> B vf d" using False Bv [of vf] by simp
        moreover have "0 \<le> B vf d / 2 ^ 22" using Bn [of vf] by simp
        ultimately have "vi \<le> B vf d + B vf d / 2 ^ 22 + 1 / 2 ^ 148" by simp
        with f show ?thesis unfolding e by simp
      next
        case False
        with i have gt: "Suc k < i" by simp
        from Suc.prems(8) gt i show ?thesis by simp
      qed
    qed
    from Suc.IH [OF rec Suc.prems(2) kn(2) Suc.prems(4) Suc.prems(5) p6 p7 p8]
    show ?thesis .
  qed
qed

lemma f32_pos:
  assumes "f32 x = Some y" and "1 / 2 ^ 149 \<le> x"
  shows "0 < y"
proof -
  define c where "c = (1::real) / 2 ^ 149"
  have c0: "0 < c" and h: "(1::real) / 2 ^ 150 = c / 2" by (simp_all add: c_def)
  have cx: "c \<le> x" using assms(2) by (simp only: c_def)
  have x0: "0 \<le> x" using c0 cx by linarith
  from f32_upper [OF assms(1) x0] have b: "x \<le> y + x / 2 ^ 24 + c / 2" unfolding h by simp
  have "x / 2 ^ 24 \<le> x / 4" using x0 by (simp add: field_simps)
  with b c0 cx show ?thesis by linarith
qed

lemma trim_path_props:
  assumes "trim_path md p pts = Some (ds, us, ps)" and "1 / 2 ^ 149 \<le> md"
  shows "length us = length ds \<and> length ps = length ds \<and> (\<forall>d \<in> set ds. 0 < d)"
  using assms
proof (induction md p pts arbitrary: ds us ps rule: trim_path.induct)
  case (1 md p)
  then show ?case by simp
next
  case (2 md p pt pts)
  define dx where "dx = fst pt - fst p"
  define dy where "dy = snd pt - snd p"
  define d where "d = distance dx dy"
  show ?case
  proof (cases "d \<ge> md")
    case True
    with "2.prems"(1) obtain ux uy st ds' us' ps' where
      ux: "py_div dx d = Some ux" and uy: "py_div dy d = Some uy"
      and st: "f32 d = Some st"
      and rec: "trim_path md pt pts = Some (ds', us', ps')"
      and res: "ds = st # ds'" "us = (ux, uy) # us'" "ps = pt # ps'"
      unfolding dx_def dy_def d_def
      by (auto simp: Let_def bind_eq_Some_conv)
    have "1 / 2 ^ 149 \<le> d" by (rule order_trans [OF "2.prems"(2) True])
    from f32_pos [OF st this] have dpos: "0 < st" .
    from "2.IH"(1)[OF refl refl refl
        True[unfolded d_def dx_def dy_def] ux[unfolded d_def dx_def dy_def]
        uy[unfolded d_def dx_def dy_def] st[unfolded d_def dx_def dy_def] rec "2.prems"(2)]
    show ?thesis unfolding res using dpos by simp
  next
    case False
    with "2.prems"(1) have rec: "trim_path md p pts = Some (ds, us, ps)"
      unfolding dx_def dy_def d_def by (simp add: Let_def)
    from "2.IH"(2)[OF refl refl refl
        False[unfolded d_def dx_def dy_def] rec "2.prems"(2)]
    show ?thesis .
  qed
qed

lemma plan_speeds_feasible:
  assumes ps: "plan_speeds cfg pu ds us = Some vels"
    and a0: "0 < active_accel_rate cfg pu" and sl0: "0 \<le> active_speed_limit cfg pu"
    and lus: "length us = length ds" and ne: "ds \<noteq> []" and dpos: "\<forall>d \<in> set ds. 0 < d"
  shows "length vels = length ds + 1 \<and> (\<forall>i < length vels. 0 \<le> vels ! i)
    \<and> (\<forall>i. 1 \<le> i \<and> i < length vels \<longrightarrow>
          vels ! i \<le> (1 + 1 / 2 ^ 22)
              * sqrt ((vels ! (i - 1))\<^sup>2 + 2 * active_accel_rate cfg pu * (0 # ds) ! i) + 1 / 2 ^ 148
        \<and> vels ! (i - 1) \<le> (1 + 1 / 2 ^ 22)
              * sqrt ((vels ! i)\<^sup>2 + 2 * active_accel_rate cfg pu * (0 # ds) ! i) + 1 / 2 ^ 148)"
proof -
  define a where "a = active_accel_rate cfg pu"
  define sl where "sl = active_speed_limit cfg pu"
  from ps obtain t_max vs where
    tm: "py_div sl a = Some t_max"
    and fp: "forward_pass sl a (0.5 * a * t_max * t_max) (par_cornering cfg / 5000) 0 ds us = Some vs"
    and rp: "reverse_pass a (0 # ds) (length (0 # ds) - 1) (0 # vs @ [0]) = Some vels"
    unfolding plan_speeds_def Let_def a_def sl_def bind_eq_Some_conv by blast
  define ad where "ad = 0.5 * a * t_max * t_max"
  note fp = fp[folded ad_def]
  define vels0 where "vels0 = 0 # vs @ [0]"
  have rp: "reverse_pass a (0 # ds) (length ds) vels0 = Some vels" using rp by (simp add: vels0_def)
  have apos: "0 < a" using a0 by (simp add: a_def)
  from tm apos have "t_max = sl / a" by (auto simp: py_div_def split: if_splits)
  then have ad': "ad = sl\<^sup>2 / (2 * a)" using apos unfolding ad_def by (simp add: power2_eq_square)
  have dnn: "\<forall>d \<in> set ds. 0 \<le> d" using dpos by (auto intro: less_imp_le)
  have lvs: "length vs = length ds - 1"
    using forward_pass_length[OF fp] lus by simp
  have lds: "1 \<le> length ds" using ne by (cases ds) simp_all
  have sl0': "0 \<le> sl" using sl0 by (simp add: sl_def)
  note fprops = forward_pass_props[OF fp order_refl sl0' apos ad' dnn]
  have l0: "length vels0 = length (0 # ds)" using lvs lds by (simp add: vels0_def)
  have k: "length ds < length vels0" using l0 by simp
  have nn: "\<forall>i < length vels0. 0 \<le> vels0 ! i"
  proof (intro allI impI)
    fix i assume i: "i < length vels0"
    show "0 \<le> vels0 ! i"
    proof (cases "1 \<le> i \<and> i \<le> length vs")
      case True
      then obtain j where j: "i = Suc j" "j < length vs" by (cases i) auto
      with fprops have "0 \<le> vs ! j" by blast
      with j show ?thesis by (simp add: vels0_def nth_append)
    next
      case False
      with i show ?thesis by (cases i) (auto simp: vels0_def nth_append)
    qed
  qed
  have dp: "\<forall>i. 1 \<le> i \<and> i < length (0 # ds) \<longrightarrow> 0 < (0 # ds) ! i"
  proof (intro allI impI)
    fix i assume i: "1 \<le> i \<and> i < length (0 # ds)"
    then obtain j where j: "i = Suc j" "j < length ds" by (cases i) auto
    with dpos show "0 < (0 # ds) ! i" by simp
  qed
  have S: "\<forall>i. 1 \<le> i \<and> i < length ds \<longrightarrow>
      vels0 ! i \<le> sqrt ((vels0 ! (i - 1))\<^sup>2 + 2 * a * (0 # ds) ! i)
          + sqrt ((vels0 ! (i - 1))\<^sup>2 + 2 * a * (0 # ds) ! i) / 2 ^ 24 + 1 / 2 ^ 150"
  proof (intro allI impI)
    fix i assume i: "1 \<le> i \<and> i < length ds"
    then obtain j where j: "i = Suc j" "j < length vs" using lvs by (cases i) auto
    with fprops have b: "vs ! j \<le> sqrt (((0 # vs) ! j)\<^sup>2 + 2 * a * ds ! j)
        + sqrt (((0 # vs) ! j)\<^sup>2 + 2 * a * ds ! j) / 2 ^ 24 + 1 / 2 ^ 150" by blast
    have e: "vels0 ! i = vs ! j" "vels0 ! (i - 1) = (0 # vs) ! j" "(0 # ds) ! i = ds ! j"
      using j by (cases j; simp add: vels0_def nth_append)+
    show "vels0 ! i \<le> sqrt ((vels0 ! (i - 1))\<^sup>2 + 2 * a * (0 # ds) ! i)
          + sqrt ((vels0 ! (i - 1))\<^sup>2 + 2 * a * (0 # ds) ! i) / 2 ^ 24 + 1 / 2 ^ 150"
      unfolding e by (rule b)
  qed
  have Wk: "1 \<le> length ds \<longrightarrow>
      vels0 ! length ds \<le> sqrt ((vels0 ! (length ds - 1))\<^sup>2 + 2 * a * (0 # ds) ! length ds)
          + 3 * sqrt ((vels0 ! (length ds - 1))\<^sup>2 + 2 * a * (0 # ds) ! length ds) / 2 ^ 24 + 3 / 2 ^ 150"
  proof
    have "vels0 ! length ds = (vs @ [0]) ! length vs" using lvs lds by (cases "length ds") (simp_all add: vels0_def)
    then have z: "vels0 ! length ds = 0" by simp
    have "0 < (0 # ds) ! length ds" using dp [rule_format, of "length ds"] lds by simp
    from reach_nonneg [OF apos this, of "vels0 ! (length ds - 1)"]
    have "0 \<le> sqrt ((vels0 ! (length ds - 1))\<^sup>2 + 2 * a * (0 # ds) ! length ds)" by simp
    then show "vels0 ! length ds \<le> sqrt ((vels0 ! (length ds - 1))\<^sup>2 + 2 * a * (0 # ds) ! length ds)
          + 3 * sqrt ((vels0 ! (length ds - 1))\<^sup>2 + 2 * a * (0 # ds) ! length ds) / 2 ^ 24 + 3 / 2 ^ 150"
      unfolding z by simp
  qed
  have D: "\<forall>i. length ds < i \<and> i < length vels0 \<longrightarrow>
      vels0 ! i \<le> sqrt ((vels0 ! (i - 1))\<^sup>2 + 2 * a * (0 # ds) ! i)
          + sqrt ((vels0 ! (i - 1))\<^sup>2 + 2 * a * (0 # ds) ! i) / 2 ^ 22 + 1 / 2 ^ 148
      \<and> vels0 ! (i - 1) \<le> sqrt ((vels0 ! i)\<^sup>2 + 2 * a * (0 # ds) ! i)
          + sqrt ((vels0 ! i)\<^sup>2 + 2 * a * (0 # ds) ! i) / 2 ^ 22 + 1 / 2 ^ 148"
    using l0 by simp
  have conv: "b + b / 2 ^ 22 + 1 / 2 ^ 148 = (1 + 1 / 2 ^ 22) * b + 1 / 2 ^ 148" for b :: real
    by (simp add: algebra_simps)
  from reverse_pass_props [OF rp apos l0 k nn dp S Wk D]
  show ?thesis unfolding conv a_def [symmetric] using l0 by simp
qed

text \<open>
  C1 (counterexample): the forward and reverse inequalities do not hold exactly of the
  speeds that the planner keeps. For the pen-down path \<open>(0, 0), (1/1024, 0),
  (1025/1024, 0)\<close> at an acceleration rate of 30 the forward pass computes \<open>sqrt (60 / 1024)\<close> for the
  middle vertex, \<open>traj_vels\<close> keeps the single nearest to it, \<open>8122235 / 2\<^sup>2\<^sup>5\<close>, which
  is larger, and \<open>v\<^sub>1\<^sup>2 \<le> v\<^sub>0\<^sup>2 + 2 a d\<^sub>1\<close> fails.
\<close>

lemma sample_root: "f32 (sqrt (15 / 256)) = Some (8122235 / 33554432)"
proof -
  have lo: "32488939 / 134217728 < sqrt (15 / 256)"
    by (rule real_less_rsqrt) (simp add: power2_eq_square)
  have hi: "sqrt (15 / 256) < 32488941 / 134217728"
    by (rule real_less_lsqrt) (simp_all add: power2_eq_square)
  have r: "py_round (sqrt (15 / 256) / 2 powi (- 3 - 23)) = 16244470"
  proof (rule py_round_near)
    have "sqrt (15 / 256) / 2 powi (- 3 - 23) = sqrt (15 / 256) * 67108864"
      by (simp add: power_int_minus_divide)
    then have eq: "sqrt (15 / 256) / 2 powi (- 3 - 23) - of_int 16244470
        = sqrt (15 / 256) * 67108864 - 16244470" by simp
    have "\<bar>sqrt (15 / 256) * 67108864 - 16244470\<bar> < 1 / 2"
      using lo hi unfolding abs_less_iff by linarith
    then show "\<bar>sqrt (15 / 256) / 2 powi (- 3 - 23) - of_int 16244470\<bar> < 1 / 2"
      unfolding eq .
  qed
  have e1: "2 powi (- 3) \<le> \<bar>sqrt (15 / 256)\<bar>"
    using lo by (simp add: power_int_minus_divide)
  have e2: "\<bar>sqrt (15 / 256)\<bar> < 2 powi (- 3 + 1)"
    using hi by (simp add: power_int_minus_divide)
  have "f32 (sqrt (15 / 256)) = Some (of_int 16244470 * 2 powi (- 3 - 23))"
    by (rule f32_eval [OF e1 e2 _ r]) (simp_all add: power_int_minus_divide)
  then show ?thesis by (simp add: power_int_minus_divide)
qed

lemma sample_trim:
  "trim_path (min_dist sample_cfg) (0, 0) [(1 / 1024, 0), (1025 / 1024, 0)]
   = Some ([1 / 1024, 1], [(1, 0), (1, 0)], [(1 / 1024, 0), (1025 / 1024, 0)])"
proof -
  have s1: "f32 (1 / 1024) = Some (1 / 1024)"
    by (rule f32_exact [of _ 1 "- 10"]) (simp_all add: power_int_minus_divide)
  have s2: "f32 1 = Some 1"
    by (rule f32_exact [of _ 1 0]) simp_all
  have d1: "distance (1 / 1024) 0 = 1 / 1024"
  proof -
    have "(1 / 1024) * (1 / 1024) + 0 * 0 = ((1 / 1024)::real)\<^sup>2" by (simp add: power2_eq_square)
    then have "distance (1 / 1024) 0 = sqrt (((1 / 1024)::real)\<^sup>2)"
      unfolding distance_def by (rule arg_cong)
    then show ?thesis by simp
  qed
  have d2: "distance 1 0 = 1" by (simp add: distance_def)
  show ?thesis
    by (simp add: s1 s2 d1 d2 min_dist_def sample_cfg_def py_div_def Let_def)
qed

lemma sample_speeds:
  "plan_speeds sample_cfg False [1 / 1024, 1] [(1, 0), (1, 0)] = Some [0, 8122235 / 33554432, 0]"
proof -
  have v: "vjunction_max 30 (1 / 500) (cosine_factor (1, 0) (1, 0)) = Some (sqrt 3000000)"
    by (simp add: vjunction_max_def junction_rfactor_def cosine_factor_def dotProductXY_def
        py_sqrt_def py_div_def)
  have rate: "active_accel_rate sample_cfg False = 30" "active_speed_limit sample_cfg False = 985 / 2032"
    "par_cornering sample_cfg = 10"
    by (simp_all add: active_accel_rate_def active_speed_limit_def sample_cfg_def)
  have "\<not> 985 / 2032 < sqrt (15 / 256)"
    unfolding not_less by (rule real_le_lsqrt) (simp_all add: power2_eq_square)
  then have c1: "\<not> 985 < sqrt (15 / 256) * 2032" by simp
  have "\<not> sqrt 60 < 8122235 / 33554432"
    unfolding not_less by (rule real_le_rsqrt) (simp add: power2_eq_square)
  then have c2: "\<not> sqrt 60 * 33554432 < 8122235" by simp
  have s: "f32 (8122235 / 33554432) = Some (8122235 / 33554432)"
    by (rule f32_exact [of _ 8122235 "- 25"]) (simp_all add: power_int_minus_divide)
  show ?thesis
    unfolding plan_speeds_def rate
    by (simp add: py_div_def Let_def v vFinal_Vi_A_Dx_def vInitial_VF_A_Dx_def c1 c2 s
        sample_root min_def)
qed

lemma sample_plan:
  "plan_velocities sample_cfg False [(0, 0), (1 / 1024, 0), (1025 / 1024, 0)]
   = Some ([0, 1 / 1024, 1], [(1 / 1024, 0), (1025 / 1024, 0)], [0, 8122235 / 33554432, 0])"
  unfolding plan_velocities_def by (simp add: sample_trim sample_speeds del: trim_path.simps)

theorem C1_exact_feasibility_counterexample:
  "plan_velocities sample_cfg False [(0, 0), (1 / 1024, 0), (1025 / 1024, 0)]
     = Some ([0, 1 / 1024, 1], [(1 / 1024, 0), (1025 / 1024, 0)], [0, 8122235 / 33554432, 0])
   \<and> active_accel_rate sample_cfg False = 30
   \<and> \<not> ([0, 8122235 / 33554432, 0 :: real] ! 1)\<^sup>2
        \<le> ([0, 8122235 / 33554432, 0] ! (1 - 1))\<^sup>2 + 2 * 30 * [0, 1 / 1024, 1] ! 1"
proof -
  have "active_accel_rate sample_cfg False = 30"
    by (simp add: active_accel_rate_def sample_cfg_def)
  moreover have "\<not> ([0, 8122235 / 33554432, 0 :: real] ! 1)\<^sup>2
        \<le> ([0, 8122235 / 33554432, 0] ! (1 - 1))\<^sup>2 + 2 * 30 * [0, 1 / 1024, 1] ! 1"
    by (simp add: power2_eq_square)
  ultimately show ?thesis using sample_plan by blast
qed

text \<open>
  C1 (amended): for every path for which the planner plans speeds (three or more points,
  at least two segments kept by the trimming, nothing raised), with a positive active
  acceleration rate \<open>a\<close>, a speed limit that is not negative and a trimming distance of
  at least \<open>2\<^sup>-\<^sup>1\<^sup>4\<^sup>9\<close> (so that no stored segment length underflows to zero), the
  arrays have one entry per vertex, no speed is negative, and at every corner
  \<open>i \<ge> 1\<close> the planned speeds satisfy the two inequalities up to the rounding of the
  single-precision arrays: \<open>v\<^sub>i \<le> (1 + 2\<^sup>-\<^sup>2\<^sup>2) sqrt (v\<^sub>i\<^sub>-\<^sub>1\<^sup>2 + 2 a d\<^sub>i) + 2\<^sup>-\<^sup>1\<^sup>4\<^sup>8\<close> and
  \<open>v\<^sub>i\<^sub>-\<^sub>1 \<le> (1 + 2\<^sup>-\<^sup>2\<^sup>2) sqrt (v\<^sub>i\<^sup>2 + 2 a d\<^sub>i) + 2\<^sup>-\<^sup>1\<^sup>4\<^sup>8\<close>, where \<open>d\<^sub>i\<close> is the stored
  length of the segment arriving at vertex \<open>i\<close>. (Shorter paths are plotted as one
  segment with both end speeds zero.)
\<close>

theorem C1_trajectory_feasible:
  assumes "plan_velocities cfg is_pen_up input_path = Some (traj_dists, trimmed_path, traj_vels)"
    and "0 < active_accel_rate cfg is_pen_up"
    and "0 \<le> active_speed_limit cfg is_pen_up"
    and "1 / 2 ^ 149 \<le> min_dist cfg"
  shows "length traj_vels = length traj_dists \<and> length trimmed_path + 1 = length traj_vels
    \<and> (\<forall>i < length traj_vels. 0 \<le> traj_vels ! i)
    \<and> (\<forall>i. 1 \<le> i \<and> i < length traj_vels \<longrightarrow>
          traj_vels ! i \<le> (1 + 1 / 2 ^ 22)
              * sqrt ((traj_vels ! (i - 1))\<^sup>2 + 2 * active_accel_rate cfg is_pen_up * traj_dists ! i)
              + 1 / 2 ^ 148
        \<and> traj_vels ! (i - 1) \<le> (1 + 1 / 2 ^ 22)
              * sqrt ((traj_vels ! i)\<^sup>2 + 2 * active_accel_rate cfg is_pen_up * traj_dists ! i)
              + 1 / 2 ^ 148)"
proof -
  from assms(1) obtain p0 pts ds us where
    tp: "trim_path (min_dist cfg) p0 pts = Some (ds, us, trimmed_path)"
    and l2: "\<not> length ds < 2"
    and ps: "plan_speeds cfg is_pen_up ds us = Some traj_vels"
    and td: "traj_dists = 0 # ds"
    unfolding plan_velocities_def
    by (auto simp: bind_eq_Some_conv simp del: trim_path.simps split: list.splits if_splits)
  from trim_path_props[OF tp assms(4)] have lus: "length us = length ds"
    and lps: "length trimmed_path = length ds" and dpos: "\<forall>d \<in> set ds. 0 < d" by simp_all
  from l2 have ne: "ds \<noteq> []" by auto
  from plan_speeds_feasible[OF ps assms(2,3) lus ne dpos] lps
  show ?thesis unfolding td by simp
qed

theorem C1_trajectory_feasible_witness:
  "plan_velocities sample_cfg False [(0, 0), (1 / 1024, 0), (1025 / 1024, 0)]
     = Some ([0, 1 / 1024, 1], [(1 / 1024, 0), (1025 / 1024, 0)], [0, 8122235 / 33554432, 0])
   \<and> 0 < active_accel_rate sample_cfg False \<and> 0 \<le> active_speed_limit sample_cfg False
   \<and> 1 / 2 ^ 149 \<le> min_dist sample_cfg
   \<and> length [0, 8122235 / 33554432, 0 :: real] = length [0, 1 / 1024, 1 :: real]
   \<and> [0, 8122235 / 33554432, 0 :: real] ! 1
        \<le> (1 + 1 / 2 ^ 22) * sqrt (([0, 8122235 / 33554432, 0] ! (1 - 1))\<^sup>2
              + 2 * active_accel_rate sample_cfg False * [0, 1 / 1024, 1] ! 1) + 1 / 2 ^ 148
   \<and> [0, 8122235 / 33554432, 0 :: real] ! (1 - 1)
        \<le> (1 + 1 / 2 ^ 22) * sqrt (([0, 8122235 / 33554432, 0] ! 1)\<^sup>2
              + 2 * active_accel_rate sample_cfg False * [0, 1 / 1024, 1] ! 1) + 1 / 2 ^ 148
   \<and> [0, 8122235 / 33554432, 0 :: real] ! 2
        \<le> (1 + 1 / 2 ^ 22) * sqrt (([0, 8122235 / 33554432, 0] ! (2 - 1))\<^sup>2
              + 2 * active_accel_rate sample_cfg False * [0, 1 / 1024, 1] ! 2) + 1 / 2 ^ 148
   \<and> [0, 8122235 / 33554432, 0 :: real] ! (2 - 1)
        \<le> (1 + 1 / 2 ^ 22) * sqrt (([0, 8122235 / 33554432, 0] ! 2)\<^sup>2
              + 2 * active_accel_rate sample_cfg False * [0, 1 / 1024, 1] ! 2) + 1 / 2 ^ 148"
proof -
  have a: "0 < active_accel_rate sample_cfg False"
    by (simp add: active_accel_rate_def sample_cfg_def)
  have b: "0 \<le> active_speed_limit sample_cfg False"
    by (simp add: active_speed_limit_def sample_cfg_def)
  have c: "1 / 2 ^ 149 \<le> min_dist sample_cfg"
    by (simp add: min_dist_def sample_cfg_def)
  note all = C1_trajectory_feasible [OF sample_plan a b c]
  have i1: "1 \<le> (1::nat) \<and> (1::nat) < length [0, 8122235 / 33554432, 0 :: real]" by simp
  have i2: "1 \<le> (2::nat) \<and> (2::nat) < length [0, 8122235 / 33554432, 0 :: real]" by simp
  from all [THEN conjunct2, THEN conjunct2, THEN conjunct2, rule_format, OF i1]
    all [THEN conjunct2, THEN conjunct2, THEN conjunct2, rule_format, OF i2]
    all [THEN conjunct1] sample_plan a b c
  show ?thesis by blast
qed

subsection \<open>Segment executor: the arrays of the velocity profile\<close>

lemma append_interval_ok:
  assumes "append_interval p = Some p'" and "length (duration_array p) = length (dist_array p)"
  shows "profile_ok p' \<and> dist_array p' \<noteq> []"
  using assms by (auto simp: append_interval_def profile_ok_def Let_def split: if_splits)

lemma ramp_ok:
  "ramp n dv dt p = Some p' \<Longrightarrow> profile_ok p \<Longrightarrow> profile_ok p' \<and> (dist_array p \<noteq> [] \<longrightarrow> dist_array p' \<noteq> []) \<and> (0 < n \<longrightarrow> dist_array p' \<noteq> [])"
proof (induction n arbitrary: p)
  case 0
  then show ?case by simp
next
  case (Suc n)
  from Suc.prems(1) obtain q where
    q: "append_interval (p\<lparr>velocity := velocity p + dv,
                                time_elapsed := time_elapsed p + dt,
                                position := position p + (velocity p + dv) * dt\<rparr>) = Some q"
    and r: "ramp n dv dt q = Some p'"
    by (auto simp: Let_def bind_eq_Some_conv)
  have "length (duration_array (p\<lparr>velocity := velocity p + dv,
                                time_elapsed := time_elapsed p + dt,
                                position := position p + (velocity p + dv) * dt\<rparr>))
      = length (dist_array (p\<lparr>velocity := velocity p + dv,
                                time_elapsed := time_elapsed p + dt,
                                position := position p + (velocity p + dv) * dt\<rparr>))"
    using Suc.prems(2) by (simp add: profile_ok_def)
  from append_interval_ok[OF q this] have qok: "profile_ok q" "dist_array q \<noteq> []" by simp_all
  from Suc.IH[OF r qok(1)] qok(2) show ?case by simp
qed

lemma ramp_up_ok:
  "ramp_up k t dv p = Some p' \<Longrightarrow> profile_ok p \<Longrightarrow>
     profile_ok p' \<and> (dist_array p \<noteq> [] \<longrightarrow> dist_array p' \<noteq> []) \<and> (0 < k \<longrightarrow> dist_array p' \<noteq> [])"
  using ramp_ok[of "nat k"] by (auto simp: ramp_up_def Let_def split: if_splits)

lemma ramp_down_ok:
  "ramp_down k t dv p = Some p' \<Longrightarrow> profile_ok p \<Longrightarrow>
     profile_ok p' \<and> (dist_array p \<noteq> [] \<longrightarrow> dist_array p' \<noteq> []) \<and> (0 < k \<longrightarrow> dist_array p' \<noteq> [])"
  using ramp_ok[of "nat k"] by (auto simp: ramp_down_def Let_def split: if_splits)


lemma profile_ok_update [simp]:
  "profile_ok (p\<lparr>velocity := v\<rparr>) = profile_ok p"
  by (simp add: profile_ok_def)

lemma cruise_ok:
  "cruise ct ci p = Some (ct', p') \<Longrightarrow> profile_ok p \<Longrightarrow>
     length (duration_array p') = length (dist_array p')"
proof (induction ct ci p rule: cruise.induct)
  case (1 ct ci p)
  note unf = cruise.simps [of ct ci p]
  show ?case
  proof (cases "ct > ci")
    case True
    with "1.prems"(1) unf have pos: "\<not> ci \<le> 0" by (auto split: if_splits)
    from "1.prems"(1) True pos obtain q where
      q: "append_interval (p\<lparr>time_elapsed := time_elapsed p + ci,
                                      position := position p + velocity p * ci\<rparr>) = Some q"
      and r: "cruise (ct - ci) ci q = Some (ct', p')"
      unfolding unf by (auto simp: bind_eq_Some_conv)
    have "length (duration_array (p\<lparr>time_elapsed := time_elapsed p + ci,
                                      position := position p + velocity p * ci\<rparr>))
       = length (dist_array (p\<lparr>time_elapsed := time_elapsed p + ci,
                                      position := position p + velocity p * ci\<rparr>))"
      using "1.prems"(2) by (simp add: profile_ok_def)
    from append_interval_ok[OF q this] have "profile_ok q" by simp
    from "1.IH"[OF True pos q r this] show ?thesis .
  next
    case False
    with "1.prems" unf show ?thesis by (simp add: profile_ok_def)
  qed
qed

lemma trapezoid_ok:
  assumes "trapezoid slice sl vi vf tam tdm adm ddm len p = Some p'" and "profile_ok p"
  shows "profile_ok p'"
proof -
  from assms(1) obtain qa p1 p2 qd where
    p1: "ramp_up (py_floor qa) tam (sl - vi) p = Some p1"
    and p2: "(if len - (adm + ddm) > slice * sl then
              py_div (len - (adm + ddm)) (velocity (p1\<lparr>velocity := sl\<rparr>)) \<bind>
              (\<lambda>cruising_time. cruise cruising_time (20 * slice) (p1\<lparr>velocity := sl\<rparr>) \<bind>
              (\<lambda>(ct, pc). append_interval (pc\<lparr>time_elapsed := time_elapsed pc + ct,
                                 position := position pc + velocity pc * ct\<rparr>)))
            else Some p1) = Some p2"
    and p': "ramp_down (py_floor qd) tdm (sl - vf) p2 = Some p'"
    unfolding trapezoid_def Let_def bind_eq_Some_conv by blast
  from ramp_up_ok[OF p1 assms(2)] have ok1: "profile_ok p1" by simp
  have ok2: "profile_ok p2"
  proof (cases "len - (adm + ddm) > slice * sl")
    case True
    with p2 obtain cruising_time ct pc where
      c: "cruise cruising_time (20 * slice) (p1\<lparr>velocity := sl\<rparr>) = Some (ct, pc)"
      and a: "append_interval (pc\<lparr>time_elapsed := time_elapsed pc + ct,
                                 position := position pc + velocity pc * ct\<rparr>) = Some p2"
      by (auto simp: bind_eq_Some_conv)
    from cruise_ok[OF c] ok1 have "length (duration_array pc) = length (dist_array pc)" by simp
    then have "length (duration_array (pc\<lparr>time_elapsed := time_elapsed pc + ct,
                                 position := position pc + velocity pc * ct\<rparr>))
       = length (dist_array (pc\<lparr>time_elapsed := time_elapsed pc + ct,
                                 position := position pc + velocity pc * ct\<rparr>))" by simp
    from append_interval_ok[OF a this] show ?thesis by simp
  next
    case False
    with p2 ok1 show ?thesis by simp
  qed
  from ramp_down_ok[OF p' ok2] show ?thesis by simp
qed

lemma linear_ramp_ok:
  assumes "linear_ramp slice rate vi vf vmax len cvm p = Some (p', cvm', vi')" and "profile_ok p"
  shows "profile_ok p' \<and> (cvm' \<and> \<not> cvm \<longrightarrow> dist_array p' = dist_array p
           \<and> duration_array p' = duration_array p \<and> position p' = position p)"
proof -
  define q where "q = p\<lparr>velocity := (vmax + vi) / 2\<rparr>"
  have qok: "profile_ok q" using assms(2) by (simp add: q_def)
  from assms(1) have "(p' = q \<and> cvm') \<or> (\<exists>n dv dt. ramp n dv dt q = Some p' \<and> cvm' = cvm)"
    unfolding linear_ramp_def Let_def q_def [symmetric]
    by (auto simp: bind_eq_Some_conv split: if_splits)
  then show ?thesis
  proof
    assume "p' = q \<and> cvm'"
    with qok show ?thesis by (simp add: q_def)
  next
    assume "\<exists>n dv dt. ramp n dv dt q = Some p' \<and> cvm' = cvm"
    then obtain n dv dt where "ramp n dv dt q = Some p'" "cvm' = cvm" by blast
    with ramp_ok[OF this(1) qok] show ?thesis by simp
  qed
qed


lemma triangle_ok:
  assumes "triangle slice rate vi vf adm ddm len cvm p = Some (p', cvm', vi')" and "profile_ok p"
  shows "profile_ok p' \<and> (cvm' \<and> \<not> cvm \<longrightarrow> dist_array p' = dist_array p
           \<and> duration_array p' = duration_array p \<and> position p' = position p)"
proof -
  from assms(1) obtain al ta qa td qd where
    fin: "(if py_floor qa + py_floor qd > 4
         then ramp_up (py_floor qa) (if py_floor qa = 0 then 0 else ta) (vi + al * ta - vi) p
                \<bind> (\<lambda>p1. ramp_down (py_floor qd) td (vi + al * ta - vf) p1
                \<bind> (\<lambda>p2. Some (p2, cvm, vi)))
         else linear_ramp slice rate vi vf (vi + al * ta) len cvm p) = Some (p', cvm', vi')"
    unfolding triangle_def Let_def bind_eq_Some_conv by blast
  show ?thesis
  proof (cases "py_floor qa + py_floor qd > 4")
    case True
    with fin obtain p1 where
      p1: "ramp_up (py_floor qa) (if py_floor qa = 0 then 0 else ta) (vi + al * ta - vi) p = Some p1"
      and p2: "ramp_down (py_floor qd) td (vi + al * ta - vf) p1 = Some p'" and c: "cvm' = cvm"
      by (auto simp: bind_eq_Some_conv)
    from ramp_up_ok[OF p1 assms(2)] have "profile_ok p1" by simp
    from ramp_down_ok[OF p2 this] c show ?thesis by simp
  next
    case False
    with fin have "linear_ramp slice rate vi vf (vi + al * ta) len cvm p = Some (p', cvm', vi')"
      by simp
    from linear_ramp_ok[OF this assms(2)] show ?thesis .
  qed
qed

lemma ramp_cases_ok:
  assumes "ramp_cases cfg is_pen_up len v_i v_f = Some (p, cvm, vi, vf)"
  shows "profile_ok p
    \<and> (cvm \<longrightarrow> dist_array p = [] \<and> duration_array p = [] \<and> position p = 0)"
proof -
  define sl where "sl = (if is_pen_up then self_speed_penup cfg else self_speed_pendown cfg)"
  define rate where "rate = (if is_pen_up then par_accel_rate_pu cfg * opt_accel cfg / 100
                 else par_accel_rate cfg * opt_accel cfg / 100)"
  define p0 where "p0 = \<lparr>velocity = min v_i sl, time_elapsed = 0, position = 0,
                  duration_array = [], dist_array = []\<rparr>"
  define cvm0 where "cvm0 = (opt_const_speed cfg \<and> \<not> is_pen_up)"
  have ok0: "profile_ok p0" by (simp add: profile_ok_def p0_def)
  have e0: "dist_array p0 = []" "duration_array p0 = []" "position p0 = 0" by (simp_all add: p0_def)
  from assms have
    "(\<not> cvm0 \<and> \<not> cvm \<and> (\<exists>slice tam tdm adm ddm. trapezoid slice sl (min v_i sl) (min v_f sl) tam tdm adm ddm len p0 = Some p))
     \<or> (\<not> cvm0 \<and> (\<exists>slice adm ddm vi0. triangle slice rate (min v_i sl) (min v_f sl) adm ddm len cvm0 p0
            = Some (p, cvm, vi0)))
     \<or> (p = p0 \<and> cvm = cvm0)"
    unfolding ramp_cases_def Let_def sl_def [symmetric] rate_def [symmetric] p0_def [symmetric]
      cvm0_def [symmetric]
    by (auto simp: bind_eq_Some_conv cvm0_def split: if_splits prod.splits)
  then show ?thesis
  proof (elim disjE)
    assume "\<not> cvm0 \<and> \<not> cvm \<and> (\<exists>slice tam tdm adm ddm. trapezoid slice sl (min v_i sl) (min v_f sl) tam tdm adm ddm len p0 = Some p)"
    with trapezoid_ok ok0 show ?thesis by blast
  next
    assume a: "\<not> cvm0 \<and> (\<exists>slice adm ddm vi0. triangle slice rate (min v_i sl) (min v_f sl) adm ddm len cvm0 p0
            = Some (p, cvm, vi0))"
    then obtain slice adm ddm vi0 where
      t: "triangle slice rate (min v_i sl) (min v_f sl) adm ddm len cvm0 p0 = Some (p, cvm, vi0)"
      by blast
    from triangle_ok[OF t ok0] a e0 show ?thesis by simp
  next
    assume "p = p0 \<and> cvm = cvm0"
    with ok0 e0 show ?thesis by simp
  qed
qed

lemma motion_profile_ok:
  assumes "motion_profile cfg is_pen_up len v_i v_f = Some p"
  shows "length (duration_array p) = length (dist_array p)
    \<and> (dist_array p \<noteq> [] \<longrightarrow> last (dist_array p) = position p)"
proof -
  from assms obtain q cvm vi vf where
    rc: "ramp_cases cfg is_pen_up len v_i v_f = Some (q, cvm, vi, vf)"
    and fin: "(if cvm then constant_velocity cfg is_pen_up vi vf len q else Some q) = Some p"
    unfolding motion_profile_def by (auto simp: bind_eq_Some_conv)
  note ok = ramp_cases_ok[OF rc]
  show ?thesis
  proof (cases cvm)
    case True
    with ok have e: "dist_array q = []" "duration_array q = []" "position q = 0" by simp_all
    from fin True have "constant_velocity cfg is_pen_up vi vf len q = Some p" by simp
    then show ?thesis using e
      by (auto simp: constant_velocity_def Let_def bind_eq_Some_conv split: if_splits)
  next
    case False
    with fin ok show ?thesis by (auto simp: profile_ok_def)
  qed
qed

end
